theory Spec2Isabelle
  imports Complex_Main "HOL-Library.AList" "HOL-Library.Sublist" "HOL-Library.Log_Nat"
begin

section \<open>ApexQuant simulated exchange: data model\<close>

text \<open>
  The embedding follows the C++ sources of the simulation core:
  \<^item> \<^verbatim>\<open>cpp/include/simulation/simulation_types.h\<close>: enums and structs;
  \<^item> \<^verbatim>\<open>simulation_account.cpp\<close> (class \<^verbatim>\<open>SimulationAccount\<close>);
  \<^item> \<^verbatim>\<open>cpp/src/simulation/order_matcher.cpp\<close> and the second copy of the same file
    that also defines \<^verbatim>\<open>validate_order_volume\<close> and \<^verbatim>\<open>calculate_total_commission\<close>;
  \<^item> \<^verbatim>\<open>cpp/src/simulation/limit_queue.cpp\<close> (class \<^verbatim>\<open>LimitQueue\<close>);
  \<^item> \<^verbatim>\<open>cpp/src/simulation/simulated_exchange.cpp\<close> (class \<^verbatim>\<open>SimulatedExchange\<close>).

  Conventions. A C++ \<^verbatim>\<open>double\<close> is a \<^typ>\<open>real\<close> in the ledger, the matcher and the
  exchange (exact arithmetic: the rounding error of binary floating point is not modelled
  there, \<^verbatim>\<open>std::round\<close> is). In the price-limit queue, whose at-limit test is decided by
  that rounding, it is an IEEE 754 binary64 value. An \<^verbatim>\<open>int64_t\<close> is an
  \<^typ>\<open>int\<close>: the sources bound every volume they add by \<open>10\<^sup>9\<close>, so the 64-bit range is
  out of reach of the operations below. Every method runs under its object's mutex and is
  modelled as one atomic state transformer. Struct fields carry a one-letter prefix
  (\<open>o_\<close> order, \<open>p_\<close> position, \<open>t_\<close> trade record, \<open>k_\<close> tick, \<open>m_\<close> match result);
  the members of \<^verbatim>\<open>SimulationAccount\<close> carry \<open>a_\<close> and those of \<^verbatim>\<open>SimulatedExchange\<close>
  carry \<open>x_\<close> in place of the trailing underscore of the sources.
\<close>

datatype OrderSide = BUY | SELL

datatype OrderType = MARKET | LIMIT

datatype OrderStatus = PENDING | PARTIAL_FILLED | FILLED | CANCELLED | REJECTED

record SimulatedOrder =
  o_order_id :: string
  o_symbol :: string
  o_side :: OrderSide
  o_type :: OrderType
  o_price :: real
  o_volume :: int
  o_filled_volume :: int
  o_status :: OrderStatus
  o_submit_time :: int
  o_cancel_time :: int
  o_filled_time :: int
  o_commission_rate :: real
  o_slippage_rate :: real

record Position =
  p_symbol :: string
  p_volume :: int
  p_available_volume :: int
  p_frozen_volume :: int
  p_avg_cost :: real
  p_current_price :: real
  p_market_value :: real
  p_unrealized_pnl :: real
  p_buy_date :: int

record TradeRecord =
  t_trade_id :: string
  t_order_id :: string
  t_symbol :: string
  t_side :: OrderSide
  t_price :: real
  t_volume :: int
  t_commission :: real
  t_trade_time :: int
  t_realized_pnl :: real

record MatchResult =
  m_success :: bool
  m_filled_price :: real
  m_filled_volume :: int
  m_reject_reason :: string

record Tick =
  k_symbol :: string
  k_timestamp :: int
  k_last_price :: real
  k_bid_price :: real
  k_ask_price :: real
  k_volume :: int
  k_last_close :: real

text \<open>The three constructors of \<^verbatim>\<open>MatchResult\<close> and the four-argument one of \<^verbatim>\<open>Position\<close>.\<close>

definition MatchResult_ok :: "real \<Rightarrow> int \<Rightarrow> MatchResult" where
  "MatchResult_ok pr vol =
     \<lparr>m_success = True, m_filled_price = pr, m_filled_volume = vol, m_reject_reason = []\<rparr>"

definition MatchResult_fail :: "string \<Rightarrow> MatchResult" where
  "MatchResult_fail reason =
     \<lparr>m_success = False, m_filled_price = 0, m_filled_volume = 0, m_reject_reason = reason\<rparr>"

definition Position_new :: "string \<Rightarrow> int \<Rightarrow> real \<Rightarrow> int \<Rightarrow> Position" where
  "Position_new smb vol cost date =
     \<lparr>p_symbol = smb, p_volume = vol, p_available_volume = 0, p_frozen_volume = 0,
      p_avg_cost = cost, p_current_price = cost, p_market_value = of_int vol * cost,
      p_unrealized_pnl = 0, p_buy_date = date\<rparr>"

section \<open>Money\<close>

text \<open>\<^verbatim>\<open>std::round\<close>: to the nearest integer, halfway cases away from zero.\<close>

definition cpp_round :: "real \<Rightarrow> real" where
  "cpp_round x = (if 0 \<le> x then of_int \<lfloor>x + 1 / 2\<rfloor> else - of_int \<lfloor>- x + 1 / 2\<rfloor>)"

text \<open>\<^verbatim>\<open>round_to_cent\<close>: \<^verbatim>\<open>std::round(value * 100.0) / 100.0\<close>.\<close>

definition round_to_cent :: "real \<Rightarrow> real" where
  "round_to_cent v = cpp_round (v * 100) / 100"

text \<open>Division of \<^verbatim>\<open>int64_t\<close> in C++ truncates towards zero.\<close>

definition cpp_div :: "int \<Rightarrow> int \<Rightarrow> int" where
  "cpp_div a b = sgn a * sgn b * (\<bar>a\<bar> div \<bar>b\<bar>)"

section \<open>The account ledger (\<^verbatim>\<open>SimulationAccount\<close>)\<close>

record SimulationAccount =
  a_account_id :: string
  a_initial_capital :: real
  a_available_cash :: real
  a_withdrawable_cash :: real
  a_frozen_cash :: real
  a_today_sell_amount :: real
  a_realized_pnl :: real
  a_positions :: "string \<rightharpoonup> Position"

text \<open>The constructor throws \<^verbatim>\<open>std::invalid_argument\<close> unless the capital is positive.\<close>

definition SimulationAccount_new :: "string \<Rightarrow> real \<Rightarrow> SimulationAccount option" where
  "SimulationAccount_new aid capital =
     (if capital \<le> 0 then None
      else Some \<lparr>a_account_id = aid, a_initial_capital = capital, a_available_cash = capital,
                 a_withdrawable_cash = capital, a_frozen_cash = 0, a_today_sell_amount = 0,
                 a_realized_pnl = 0, a_positions = Map.empty\<rparr>)"

definition freeze_cash :: "real \<Rightarrow> SimulationAccount \<Rightarrow> bool \<times> SimulationAccount" where
  "freeze_cash amount a =
     (if amount < 0 then (False, a)
      else let amt = round_to_cent amount in
        if a_available_cash a < amt then (False, a)
        else (True, a\<lparr>a_available_cash := a_available_cash a - amt,
                       a_frozen_cash := a_frozen_cash a + amt\<rparr>))"

definition unfreeze_cash :: "real \<Rightarrow> SimulationAccount \<Rightarrow> SimulationAccount" where
  "unfreeze_cash amount a =
     (if amount < 0 then a
      else let amt = min (round_to_cent amount) (a_frozen_cash a) in
        a\<lparr>a_frozen_cash := a_frozen_cash a - amt,
          a_available_cash := a_available_cash a + amt\<rparr>)"

definition add_position ::
  "string \<Rightarrow> int \<Rightarrow> real \<Rightarrow> int \<Rightarrow> SimulationAccount \<Rightarrow> bool \<times> SimulationAccount" where
  "add_position smb vol pr date a =
     (if smb = [] then (False, a)
      else if vol \<le> 0 \<or> pr \<le> 0 then (False, a)
      else if vol > 1000000000 then (False, a)
      else if pr > 1000000 then (False, a)
      else let pr' = round_to_cent pr;
               cost = round_to_cent (of_int vol * pr') in
        (case a_positions a smb of
           None \<Rightarrow>
             (True, a\<lparr>a_positions := (a_positions a)
                        (smb \<mapsto> (Position_new smb vol pr' date)\<lparr>p_available_volume := 0\<rparr>)\<rparr>)
         | Some pos \<Rightarrow>
             let total_cost = of_int (p_volume pos) * p_avg_cost pos + cost;
                 vol' = p_volume pos + vol;
                 avg' = round_to_cent (total_cost / of_int vol');
                 mv' = round_to_cent (of_int vol' * p_current_price pos);
                 pos' = pos\<lparr>p_volume := vol', p_avg_cost := avg', p_market_value := mv',
                            p_unrealized_pnl := round_to_cent (mv' - of_int vol' * avg')\<rparr>
             in (True, a\<lparr>a_positions := (a_positions a)(smb \<mapsto> pos')\<rparr>)))"

text \<open>
  \<^verbatim>\<open>reduce_position\<close> returns \<^verbatim>\<open>false\<close> before it writes anything, so failure is
  \<open>None\<close>; on success the result carries the out-parameter \<^verbatim>\<open>realized_pnl\<close>.
\<close>

definition reduce_position ::
  "string \<Rightarrow> int \<Rightarrow> real \<Rightarrow> SimulationAccount \<Rightarrow> (real \<times> SimulationAccount) option" where
  "reduce_position smb vol sell_price a =
     (if vol \<le> 0 \<or> sell_price \<le> 0 then None
      else case a_positions a smb of
        None \<Rightarrow> None
      | Some pos \<Rightarrow>
          if p_volume pos < vol then None
          else let sp = round_to_cent sell_price;
                   cost = round_to_cent (of_int vol * p_avg_cost pos);
                   revenue = round_to_cent (of_int vol * sp);
                   pnl = round_to_cent (revenue - cost);
                   vol' = p_volume pos - vol;
                   a1 = a\<lparr>a_realized_pnl := a_realized_pnl a + pnl,
                          a_available_cash := a_available_cash a + revenue,
                          a_today_sell_amount := a_today_sell_amount a + revenue\<rparr>
               in if vol' = 0
                  then Some (pnl, a1\<lparr>a_positions := (a_positions a)(smb := None)\<rparr>)
                  else let mv' = round_to_cent (of_int vol' * p_current_price pos);
                           pos' = pos\<lparr>p_volume := vol',
                                      p_available_volume := max 0 (p_available_volume pos - vol),
                                      p_market_value := mv',
                                      p_unrealized_pnl :=
                                        round_to_cent (mv' - of_int vol' * p_avg_cost pos)\<rparr>
                       in Some (pnl, a1\<lparr>a_positions := (a_positions a)(smb \<mapsto> pos')\<rparr>))"

definition update_position_price :: "string \<Rightarrow> real \<Rightarrow> SimulationAccount \<Rightarrow> SimulationAccount" where
  "update_position_price smb cur a =
     (case a_positions a smb of
        None \<Rightarrow> a
      | Some pos \<Rightarrow>
          let cp = round_to_cent cur;
              mv = round_to_cent (of_int (p_volume pos) * cp);
              pos' = pos\<lparr>p_current_price := cp, p_market_value := mv,
                         p_unrealized_pnl :=
                           round_to_cent (mv - of_int (p_volume pos) * p_avg_cost pos)\<rparr>
          in a\<lparr>a_positions := (a_positions a)(smb \<mapsto> pos')\<rparr>)"

text \<open>
  The T+1 unlocking loop shared by \<^verbatim>\<open>update_available_volume\<close> and
  \<^verbatim>\<open>daily_settlement\<close>: each entry of the position map is rewritten on its own, so the
  iteration order of the \<^verbatim>\<open>unordered_map\<close> does not matter.
\<close>

definition unlock_position :: "int \<Rightarrow> Position \<Rightarrow> Position" where
  "unlock_position current_date pos =
     (if p_buy_date pos < current_date
      then pos\<lparr>p_available_volume := p_volume pos - p_frozen_volume pos\<rparr>
      else pos)"

definition update_available_volume :: "int \<Rightarrow> SimulationAccount \<Rightarrow> SimulationAccount" where
  "update_available_volume current_date a =
     a\<lparr>a_positions := (\<lambda>s. map_option (unlock_position current_date) (a_positions a s))\<rparr>"

definition daily_settlement :: "int \<Rightarrow> SimulationAccount \<Rightarrow> SimulationAccount" where
  "daily_settlement current_date a =
     a\<lparr>a_withdrawable_cash := a_available_cash a,
       a_today_sell_amount := 0,
       a_positions := (\<lambda>s. map_option (unlock_position current_date) (a_positions a s))\<rparr>"

definition can_sell :: "string \<Rightarrow> int \<Rightarrow> int \<Rightarrow> SimulationAccount \<Rightarrow> bool" where
  "can_sell smb vol current_date a =
     (case a_positions a smb of
        None \<Rightarrow> False
      | Some pos \<Rightarrow>
          if p_buy_date pos = current_date then p_available_volume pos \<ge> vol
          else p_volume pos - p_frozen_volume pos \<ge> vol)"

definition freeze_position :: "string \<Rightarrow> int \<Rightarrow> SimulationAccount \<Rightarrow> bool \<times> SimulationAccount" where
  "freeze_position smb vol a =
     (if vol \<le> 0 then (False, a)
      else case a_positions a smb of
        None \<Rightarrow> (False, a)
      | Some pos \<Rightarrow>
          if p_volume pos - p_frozen_volume pos < vol then (False, a)
          else (True, a\<lparr>a_positions := (a_positions a)
                          (smb \<mapsto> pos\<lparr>p_frozen_volume := p_frozen_volume pos + vol\<rparr>)\<rparr>))"

definition unfreeze_position :: "string \<Rightarrow> int \<Rightarrow> SimulationAccount \<Rightarrow> SimulationAccount" where
  "unfreeze_position smb vol a =
     (if vol \<le> 0 then a
      else case a_positions a smb of
        None \<Rightarrow> a
      | Some pos \<Rightarrow>
          a\<lparr>a_positions := (a_positions a)
              (smb \<mapsto> pos\<lparr>p_frozen_volume := max 0 (p_frozen_volume pos - vol)\<rparr>)\<rparr>)"

section \<open>Strings\<close>

text \<open>
  \<open>str_has pat s\<close> is \<^verbatim>\<open>s.find(pat) != std::string::npos\<close>: the pattern occurs
  somewhere in \<open>s\<close>. \<open>starts_with n pat s\<close> is
  \<^verbatim>\<open>s.length() >= n && s.substr(0, n) == pat\<close>.
\<close>

fun str_has :: "string \<Rightarrow> string \<Rightarrow> bool" where
  "str_has pat [] = (pat = [])"
| "str_has pat (c # cs) = (prefix pat (c # cs) \<or> str_has pat cs)"

definition starts_with :: "nat \<Rightarrow> string \<Rightarrow> string \<Rightarrow> bool" where
  "starts_with n pat s = (length s \<ge> n \<and> take n s = pat)"

text \<open>Decimal printing of an \<^verbatim>\<open>int64_t\<close> (\<^verbatim>\<open>operator<<\<close> and \<^verbatim>\<open>std::to_string\<close>).\<close>

definition digit_char :: "nat \<Rightarrow> char" where
  "digit_char d = ''0123456789'' ! (d mod 10)"

fun to_digits :: "nat \<Rightarrow> string" where
  "to_digits n = (if n < 10 then [digit_char n] else to_digits (n div 10) @ [digit_char n])"

declare to_digits.simps [simp del]

definition to_string :: "int \<Rightarrow> string" where
  "to_string i = (if i < 0 then CHR ''-'' # to_digits (nat (- i)) else to_digits (nat i))"

section \<open>The matcher (\<^verbatim>\<open>OrderMatcher\<close>)\<close>

text \<open>
  The random engine \<^verbatim>\<open>rng_\<close> with its distribution \<^verbatim>\<open>dist_\<close> on \<open>[-1, 1)\<close> is the
  stream of the numbers it is going to return; \<open>draw\<close> is one call \<^verbatim>\<open>dist_(rng_)\<close>.
\<close>

record OrderMatcher =
  om_default_slippage_rate :: real
  om_default_commission_rate :: real
  om_stamp_tax_rate :: real
  om_rng :: "nat \<Rightarrow> real"

definition OrderMatcher_new :: "(nat \<Rightarrow> real) \<Rightarrow> OrderMatcher" where
  "OrderMatcher_new seed =
     \<lparr>om_default_slippage_rate = 1 / 10000, om_default_commission_rate = 25 / 100000,
      om_stamp_tax_rate = 1 / 1000, om_rng = seed\<rparr>"

definition draw :: "OrderMatcher \<Rightarrow> real \<times> OrderMatcher" where
  "draw mt = (om_rng mt 0, mt\<lparr>om_rng := (\<lambda>n. om_rng mt (Suc n))\<rparr>)"

definition get_limit_pct :: "string \<Rightarrow> real" where
  "get_limit_pct smb =
     (if str_has ''ST'' smb \<or> str_has ''st'' smb then 5 / 100
      else if starts_with 3 ''688'' smb then 20 / 100
      else if starts_with 3 ''300'' smb then 20 / 100
      else if length smb \<ge> 1 \<and> (smb ! 0 = CHR ''8'' \<or> smb ! 0 = CHR ''4'') then 30 / 100
      else 10 / 100)"

definition check_limit_price :: "string \<Rightarrow> real \<Rightarrow> real \<Rightarrow> bool" where
  "check_limit_price smb pr last_close =
     (if last_close \<le> 0 then True
      else let limit_pct = get_limit_pct smb;
               limit_up = last_close * (1 + limit_pct);
               limit_down = last_close * (1 - limit_pct)
           in pr \<ge> limit_down \<and> pr \<le> limit_up)"

definition calculate_slippage ::
  "OrderSide \<Rightarrow> real \<Rightarrow> int \<Rightarrow> real \<Rightarrow> OrderMatcher \<Rightarrow> real \<times> OrderMatcher" where
  "calculate_slippage sd base_price vol slippage_rate mt =
     (let (u1, mt1) = draw mt;
          (random_slippage, mt2) =
             (if vol > 10000
              then (let (u2, mt') = draw mt1 in (slippage_rate * (15 / 10) * u2, mt'))
              else (slippage_rate * u1, mt1));
          actual_slippage = (if sd = BUY then \<bar>random_slippage\<bar> else - \<bar>random_slippage\<bar>)
      in (round_to_cent (base_price * (1 + actual_slippage)), mt2))"

definition check_liquidity :: "int \<Rightarrow> Tick \<Rightarrow> OrderSide \<Rightarrow> bool" where
  "check_liquidity vol tick sd =
     (if k_volume tick \<le> 0 then True else vol \<le> cpp_div (k_volume tick) 10)"

text \<open>
  \<^verbatim>\<open>volume % 100\<close> is the remainder of the truncating division; the third argument of
  \<^verbatim>\<open>validate_order_volume\<close> defaults to 0.
\<close>

definition cpp_mod :: "int \<Rightarrow> int \<Rightarrow> int" where
  "cpp_mod a b = a - b * cpp_div a b"

definition validate_order_volume :: "int \<Rightarrow> OrderSide \<Rightarrow> int \<Rightarrow> bool \<times> string" where
  "validate_order_volume vol sd available =
     (if vol \<le> 0 then (False, ''Order volume must be positive'')
      else if vol > 1000000 then (False, ''Order volume exceeds maximum (1,000,000 shares)'')
      else if sd = BUY \<and> cpp_mod vol 100 \<noteq> 0
        then (False, ''Buy volume must be multiple of 100 (lot size)'')
      else if sd = SELL \<and> available > 0 \<and> vol > available
        then (False, ''Sell volume exceeds available volume'')
      else (True, ''OK''))"

text \<open>
  Steps 2 to 6 of \<^verbatim>\<open>try_match_order\<close>, which the two copies of
  \<^verbatim>\<open>order_matcher.cpp\<close> share; they differ in step 1 and in the text of the two
  price-limit reasons, passed here as \<open>up\<close> and \<open>down\<close>.
\<close>

definition base_price_of :: "SimulatedOrder \<Rightarrow> Tick \<Rightarrow> string + real" where
  "base_price_of ord tick =
     (if o_type ord = MARKET
      then (if o_side ord = BUY then Inr (k_ask_price tick) else Inr (k_bid_price tick))
      else if o_side ord = BUY
        then (if k_ask_price tick > o_price ord then Inl ''Buy limit price too low''
              else Inr (o_price ord))
        else (if k_bid_price tick < o_price ord then Inl ''Sell limit price too high''
              else Inr (o_price ord)))"

definition match_price ::
  "string \<Rightarrow> string \<Rightarrow> OrderMatcher \<Rightarrow> SimulatedOrder \<Rightarrow> Tick \<Rightarrow> bool \<Rightarrow> MatchResult \<times> OrderMatcher" where
  "match_price up down mt ord tick check_price_limit =
     (case base_price_of ord tick of
        Inl reason \<Rightarrow> (MatchResult_fail reason, mt)
      | Inr base_price \<Rightarrow>
          if check_price_limit \<and> k_last_close tick > 0
             \<and> \<not> check_limit_price (o_symbol ord) base_price (k_last_close tick)
          then (MatchResult_fail (if o_side ord = BUY then up else down), mt)
          else if \<not> check_liquidity (o_volume ord) tick (o_side ord)
          then (MatchResult_fail ''Insufficient liquidity'', mt)
          else let slippage_rate =
                     (if o_slippage_rate ord > 0 then o_slippage_rate ord
                      else om_default_slippage_rate mt);
                   (filled_price, mt') =
                     calculate_slippage (o_side ord) base_price (o_volume ord) slippage_rate mt
               in (MatchResult_ok filled_price (o_volume ord), mt'))"

text \<open>\<^verbatim>\<open>try_match_order\<close> of \<^verbatim>\<open>cpp/src/simulation/order_matcher.cpp\<close>.\<close>

definition try_match_order ::
  "OrderMatcher \<Rightarrow> SimulatedOrder \<Rightarrow> Tick \<Rightarrow> bool \<Rightarrow> MatchResult \<times> OrderMatcher" where
  "try_match_order mt ord tick check_price_limit =
     (if o_volume ord \<le> 0 then (MatchResult_fail ''Order volume must be positive'', mt)
      else match_price ''Price at limit up'' ''Price at limit down'' mt ord tick check_price_limit)"

text \<open>
  \<^verbatim>\<open>try_match_order\<close> of the copy of \<^verbatim>\<open>order_matcher.cpp\<close> that defines
  \<^verbatim>\<open>validate_order_volume\<close> and calls it first.
\<close>

definition try_match_order_lot ::
  "OrderMatcher \<Rightarrow> SimulatedOrder \<Rightarrow> Tick \<Rightarrow> bool \<Rightarrow> MatchResult \<times> OrderMatcher" where
  "try_match_order_lot mt ord tick check_price_limit =
     (let (is_valid, error_msg) = validate_order_volume (o_volume ord) (o_side ord) 0 in
      if \<not> is_valid then (MatchResult_fail error_msg, mt)
      else match_price ''Price at limit up - queuing'' ''Price at limit down - queuing''
             mt ord tick check_price_limit)"

definition calculate_total_commission ::
  "OrderMatcher \<Rightarrow> OrderSide \<Rightarrow> string \<Rightarrow> real \<Rightarrow> int \<Rightarrow> real \<Rightarrow> real" where
  "calculate_total_commission mt sd smb pr vol commission_rate =
     (let amount = pr * of_int vol;
          commission = max (amount * commission_rate) 5;
          stamp_tax = (if sd = SELL then amount * om_stamp_tax_rate mt else 0);
          is_shanghai_stock =
            ((length smb \<ge> 1 \<and> smb ! 0 = CHR ''6'') \<or> starts_with 4 ''sh.6'' smb);
          transfer_fee = (if is_shanghai_stock then of_int vol * (2 / 100000) else 0)
      in round_to_cent (commission + stamp_tax + transfer_fee))"

section \<open>Binary floating point (\<^verbatim>\<open>double\<close>)\<close>

text \<open>
  The price-limit queue decides whether a price is still at the limit by comparing two
  prices that lie a cent apart, and the answer depends on how binary floating point rounds
  them. The arithmetic of that class is therefore the one the C++ program performs: IEEE 754
  binary64, rounding to nearest with ties to even. A \<^verbatim>\<open>double\<close> is a finite value, an
  infinity or NaN. The sign of a zero is dropped: it could show only in a division by zero,
  and the one divisor of the class is 100.
\<close>

datatype double = Finite real | PInf | NInf | NaN

text \<open>
  \<open>dbl_exponent x\<close> is the binary exponent of \<open>x\<close>, the integer part of \<open>log 2 \<bar>x\<bar>\<close>, and
  \<open>- 1022\<close> for zero and the subnormal numbers, which lie below \<open>2 powi - 1022\<close> and are
  multiples of \<open>2 powi - 1074\<close>. A double has 53 significant bits, so the doubles around
  \<open>x\<close> lie \<open>dbl_ulp x\<close> apart.
\<close>

definition dbl_exponent :: "real \<Rightarrow> int" where
  "dbl_exponent x = max (- 1022) (bitlen \<lfloor>\<bar>x\<bar> * 2 ^ 1074\<rfloor> - 1075)"

definition dbl_ulp :: "real \<Rightarrow> real" where
  "dbl_ulp x = 2 powi (dbl_exponent x - 52)"

text \<open>To the nearest integer, halfway cases to the even one.\<close>

definition round_half_even :: "real \<Rightarrow> int" where
  "round_half_even x =
     (let f = \<lfloor>x\<rfloor>
      in if x - of_int f < 1 / 2 then f
         else if 1 / 2 < x - of_int f then f + 1
         else if even f then f else f + 1)"

text \<open>
  \<open>to_double x\<close> is the double nearest to the real \<open>x\<close>: what a decimal literal denotes and
  what every arithmetic operation returns for its exact result \<open>x\<close>. A result of magnitude
  \<open>2 ^ 1024\<close> or more overflows to an infinity.
\<close>

definition to_double :: "real \<Rightarrow> double" where
  "to_double x =
     (let y = of_int (round_half_even (x / dbl_ulp x)) * dbl_ulp x
      in if 2 ^ 1024 \<le> y then PInf else if y \<le> - (2 ^ 1024) then NInf else Finite y)"


fun dbl_add :: "double \<Rightarrow> double \<Rightarrow> double" where
  "dbl_add (Finite x) (Finite y) = to_double (x + y)"
| "dbl_add NaN _ = NaN"
| "dbl_add _ NaN = NaN"
| "dbl_add PInf NInf = NaN"
| "dbl_add NInf PInf = NaN"
| "dbl_add PInf _ = PInf"
| "dbl_add _ PInf = PInf"
| "dbl_add NInf _ = NInf"
| "dbl_add _ NInf = NInf"


fun dbl_mul :: "double \<Rightarrow> double \<Rightarrow> double" where
  "dbl_mul (Finite x) (Finite y) = to_double (x * y)"
| "dbl_mul NaN _ = NaN"
| "dbl_mul _ NaN = NaN"
| "dbl_mul (Finite x) PInf = (if 0 < x then PInf else if x < 0 then NInf else NaN)"
| "dbl_mul (Finite x) NInf = (if 0 < x then NInf else if x < 0 then PInf else NaN)"
| "dbl_mul PInf (Finite y) = (if 0 < y then PInf else if y < 0 then NInf else NaN)"
| "dbl_mul NInf (Finite y) = (if 0 < y then NInf else if y < 0 then PInf else NaN)"
| "dbl_mul PInf PInf = PInf"
| "dbl_mul NInf NInf = PInf"
| "dbl_mul PInf NInf = NInf"
| "dbl_mul NInf PInf = NInf"

fun dbl_div :: "double \<Rightarrow> double \<Rightarrow> double" where
  "dbl_div (Finite x) (Finite y) =
     (if y = 0 then (if x = 0 then NaN else if 0 < x then PInf else NInf)
      else to_double (x / y))"
| "dbl_div NaN _ = NaN"
| "dbl_div _ NaN = NaN"
| "dbl_div (Finite x) _ = Finite 0"
| "dbl_div PInf (Finite y) = (if 0 \<le> y then PInf else NInf)"
| "dbl_div NInf (Finite y) = (if 0 \<le> y then NInf else PInf)"
| "dbl_div _ _ = NaN"

text \<open>\<^verbatim>\<open>std::round\<close> of a double is an integer that is itself a double.\<close>

fun dbl_round :: "double \<Rightarrow> double" where
  "dbl_round (Finite x) = Finite (cpp_round x)"
| "dbl_round d = d"




section \<open>The price-limit queue (\<^verbatim>\<open>LimitQueue\<close>)\<close>

record LimitQueue =
  limit_up_queues :: "string \<rightharpoonup> SimulatedOrder list"
  limit_down_queues :: "string \<rightharpoonup> SimulatedOrder list"

definition LimitQueue_new :: LimitQueue where
  "LimitQueue_new = \<lparr>limit_up_queues = Map.empty, limit_down_queues = Map.empty\<rparr>"

text \<open>\<^verbatim>\<open>queues[symbol].push_back(order)\<close>: \<^verbatim>\<open>operator[]\<close> creates a missing entry.\<close>

definition push_back_at ::
  "string \<Rightarrow> SimulatedOrder \<Rightarrow> (string \<rightharpoonup> SimulatedOrder list) \<Rightarrow> (string \<rightharpoonup> SimulatedOrder list)" where
  "push_back_at smb ord qs = qs(smb \<mapsto> (case qs smb of None \<Rightarrow> [] | Some q \<Rightarrow> q) @ [ord])"

definition add_to_limit_up_queue :: "SimulatedOrder \<Rightarrow> LimitQueue \<Rightarrow> LimitQueue" where
  "add_to_limit_up_queue ord lq =
     lq\<lparr>limit_up_queues := push_back_at (o_symbol ord) ord (limit_up_queues lq)\<rparr>"


text \<open>
  The four functions below compute in \<^verbatim>\<open>double\<close>. The literals \<^verbatim>\<open>0.05\<close>, \<^verbatim>\<open>0.20\<close>,
  \<^verbatim>\<open>0.30\<close>, \<^verbatim>\<open>0.10\<close> and \<^verbatim>\<open>0.01\<close> are the doubles nearest to these decimals; \<^verbatim>\<open>1.0\<close> and
  \<^verbatim>\<open>100.0\<close> are doubles as they stand.
\<close>

definition lq_get_limit_pct :: "string \<Rightarrow> double" where
  "lq_get_limit_pct smb =
     (if str_has ''ST'' smb \<or> str_has ''st'' smb then to_double (5 / 100)
      else if starts_with 3 ''688'' smb then to_double (20 / 100)
      else if starts_with 3 ''300'' smb then to_double (20 / 100)
      else if length smb \<ge> 1 \<and> (smb ! 0 = CHR ''8'' \<or> smb ! 0 = CHR ''4'') then to_double (30 / 100)
      else to_double (10 / 100))"

definition calculate_limit_up_price :: "string \<Rightarrow> double \<Rightarrow> double" where
  "calculate_limit_up_price smb last_close =
     (let limit_pct = lq_get_limit_pct smb;
          limit_up = dbl_mul last_close (dbl_add (Finite 1) limit_pct)
      in dbl_div (dbl_round (dbl_mul limit_up (Finite 100))) (Finite 100))"







definition get_limit_up_queue_size :: "string \<Rightarrow> LimitQueue \<Rightarrow> nat" where
  "get_limit_up_queue_size smb lq =
     (case limit_up_queues lq smb of None \<Rightarrow> 0 | Some q \<Rightarrow> length q)"


section \<open>The exchange (\<^verbatim>\<open>SimulatedExchange\<close>)\<close>

text \<open>
  \<^verbatim>\<open>orders_\<close> is an \<^verbatim>\<open>unordered_map\<close> from order id to order. It is an association
  list with one entry for each key: \<open>map_of\<close> is \<^verbatim>\<open>find\<close>, \<open>AList.update\<close> is
  \<^verbatim>\<open>orders_[id] = order\<close>, and the order of the list is the order in which \<^verbatim>\<open>on_tick\<close>
  walks the map (C++ leaves it unspecified; no theorem below depends on it). The class
  has no \<^verbatim>\<open>LimitQueue\<close> member. The system clock read by \<^verbatim>\<open>submit_order\<close> and
  \<^verbatim>\<open>cancel_order\<close> is the argument \<open>now\<close>.
\<close>

record SimulatedExchange =
  x_account :: SimulationAccount
  x_matcher :: OrderMatcher
  x_orders :: "(string \<times> SimulatedOrder) list"
  x_trade_history :: "TradeRecord list"
  x_current_time :: int
  x_order_counter :: int

type_synonym matcher_fn =
  "OrderMatcher \<Rightarrow> SimulatedOrder \<Rightarrow> Tick \<Rightarrow> bool \<Rightarrow> MatchResult \<times> OrderMatcher"

definition SimulatedExchange_new ::
  "string \<Rightarrow> real \<Rightarrow> (nat \<Rightarrow> real) \<Rightarrow> SimulatedExchange option" where
  "SimulatedExchange_new aid capital seed =
     (case SimulationAccount_new aid capital of
        None \<Rightarrow> None
      | Some a \<Rightarrow>
          Some \<lparr>x_account = a, x_matcher = OrderMatcher_new seed, x_orders = [],
                x_trade_history = [], x_current_time = 0, x_order_counter = 0\<rparr>)"

definition generate_order_id :: "string \<Rightarrow> int \<Rightarrow> SimulatedExchange \<Rightarrow> string \<times> SimulatedExchange" where
  "generate_order_id smb now x =
     (let c = x_order_counter x + 1
      in (''ORDER_'' @ to_string now @ ''_'' @ smb @ ''_'' @ to_string c,
          x\<lparr>x_order_counter := c\<rparr>))"

text \<open>The cash frozen for a buy order: recomputed from the order wherever it is needed.\<close>

definition freeze_amount :: "SimulatedOrder \<Rightarrow> real" where
  "freeze_amount ord =
     (let estimate_price = (if o_type ord = LIMIT then o_price ord else 1000000)
      in of_int (o_volume ord) * estimate_price * (1003 / 1000))"

definition ms_per_day :: int where
  "ms_per_day = 24 * 3600 * 1000"

definition set_order :: "string \<Rightarrow> SimulatedOrder \<Rightarrow> SimulatedExchange \<Rightarrow> SimulatedExchange" where
  "set_order oid ord x = x\<lparr>x_orders := AList.update oid ord (x_orders x)\<rparr>"

definition submit_order ::
  "SimulatedOrder \<Rightarrow> int \<Rightarrow> SimulatedExchange \<Rightarrow> string \<times> SimulatedExchange" where
  "submit_order order0 now x =
     (let (oid, x1) = generate_order_id (o_symbol order0) now x;
          ord = order0\<lparr>o_order_id := oid, o_status := PENDING, o_filled_volume := 0,
                       o_submit_time := now\<rparr>;
          rejected = ord\<lparr>o_status := REJECTED\<rparr>
      in if o_volume ord \<le> 0 then (oid, set_order oid rejected x1)
         else if o_type ord = LIMIT \<and> o_price ord \<le> 0 then (oid, set_order oid rejected x1)
         else if o_side ord = BUY then
           (case freeze_cash (freeze_amount ord) (x_account x1) of
              (False, _) \<Rightarrow> (oid, set_order oid rejected x1)
            | (True, a') \<Rightarrow> (oid, set_order oid ord (x1\<lparr>x_account := a'\<rparr>)))
         else
           (let current_date = cpp_div (x_current_time x1) ms_per_day
            in if \<not> can_sell (o_symbol ord) (o_volume ord) current_date (x_account x1)
               then (oid, set_order oid rejected x1)
               else (case freeze_position (o_symbol ord) (o_volume ord) (x_account x1) of
                       (False, _) \<Rightarrow> (oid, set_order oid rejected x1)
                     | (True, a') \<Rightarrow> (oid, set_order oid ord (x1\<lparr>x_account := a'\<rparr>)))))"

text \<open>
  \<^verbatim>\<open>process_reject\<close> and \<^verbatim>\<open>process_fill\<close> take a reference to an entry of
  \<^verbatim>\<open>orders_\<close>: here its key \<open>oid\<close> and its present value \<open>ord\<close>; what they write to the
  order is written back under the key.
\<close>

definition release_order :: "SimulatedOrder \<Rightarrow> SimulationAccount \<Rightarrow> SimulationAccount" where
  "release_order ord a =
     (if o_side ord = BUY then unfreeze_cash (freeze_amount ord) a
      else unfreeze_position (o_symbol ord) (o_volume ord) a)"

definition process_reject :: "string \<Rightarrow> SimulatedOrder \<Rightarrow> SimulatedExchange \<Rightarrow> SimulatedExchange" where
  "process_reject oid ord x =
     set_order oid (ord\<lparr>o_status := REJECTED\<rparr>)
       (x\<lparr>x_account := release_order ord (x_account x)\<rparr>)"

definition calculate_commission :: "OrderSide \<Rightarrow> real \<Rightarrow> int \<Rightarrow> real" where
  "calculate_commission sd filled_price filled_volume =
     (let turnover = filled_price * of_int filled_volume;
          commission = max (turnover * (25 / 100000)) 5;
          commission' = (if sd = SELL then commission + turnover * (1 / 1000) else commission)
      in cpp_round (commission' * 100) / 100)"

definition record_fill ::
  "string \<Rightarrow> SimulatedOrder \<Rightarrow> MatchResult \<Rightarrow> real \<Rightarrow> real \<Rightarrow> SimulatedExchange \<Rightarrow> SimulatedExchange" where
  "record_fill oid ord res commission realized_pnl x =
     (let ord' = ord\<lparr>o_status := FILLED, o_filled_volume := m_filled_volume res,
                     o_filled_time := x_current_time x\<rparr>;
          trade = \<lparr>t_trade_id = ''TRADE_'' @ to_string (x_current_time x) @ ''_''
                                  @ to_string (int (length (x_trade_history x)) + 1),
                   t_order_id = o_order_id ord, t_symbol = o_symbol ord, t_side = o_side ord,
                   t_price = m_filled_price res, t_volume = m_filled_volume res,
                   t_commission = commission, t_trade_time = x_current_time x,
                   t_realized_pnl = realized_pnl\<rparr>
      in (set_order oid ord' x)\<lparr>x_trade_history := x_trade_history x @ [trade]\<rparr>)"

definition process_fill ::
  "string \<Rightarrow> SimulatedOrder \<Rightarrow> MatchResult \<Rightarrow> int \<Rightarrow> SimulatedExchange \<Rightarrow> SimulatedExchange" where
  "process_fill oid ord res current_date x =
     (let commission =
            calculate_commission (o_side ord) (m_filled_price res) (m_filled_volume res)
      in if o_side ord = BUY then
           (let actual_cost = of_int (m_filled_volume res) * m_filled_price res + commission;
                a1 = unfreeze_cash (freeze_amount ord) (x_account x)
            in case freeze_cash actual_cost a1 of
                 (False, _) \<Rightarrow> process_reject oid ord (x\<lparr>x_account := a1\<rparr>)
               | (True, a2) \<Rightarrow>
                   let a3 = unfreeze_cash actual_cost a2;
                       a4 = snd (add_position (o_symbol ord) (m_filled_volume res)
                                   (m_filled_price res) current_date a3)
                   in record_fill oid ord res commission 0 (x\<lparr>x_account := a4\<rparr>))
         else
           (case reduce_position (o_symbol ord) (m_filled_volume res) (m_filled_price res)
                   (x_account x) of
              None \<Rightarrow> process_reject oid ord x
            | Some (realized_pnl, a1) \<Rightarrow>
                let a2 = snd (freeze_cash commission a1);
                    a3 = unfreeze_cash commission a2;
                    a4 = unfreeze_position (o_symbol ord) (m_filled_volume res) a3
                in record_fill oid ord res commission realized_pnl (x\<lparr>x_account := a4\<rparr>)))"

text \<open>
  One round of the loop of \<^verbatim>\<open>on_tick\<close>, at the entry with key \<open>oid\<close>. The matcher is a
  parameter, since the sources hold two versions of \<^verbatim>\<open>try_match_order\<close>.
\<close>

definition match_step ::
  "matcher_fn \<Rightarrow> Tick \<Rightarrow> int \<Rightarrow> string \<Rightarrow> SimulatedExchange \<Rightarrow> SimulatedExchange" where
  "match_step mf tick current_date oid x =
     (case map_of (x_orders x) oid of
        None \<Rightarrow> x
      | Some ord \<Rightarrow>
          if o_status ord \<noteq> PENDING then x
          else if o_symbol ord \<noteq> k_symbol tick then x
          else let (res, mt') = mf (x_matcher x) ord tick True;
                   x1 = x\<lparr>x_matcher := mt'\<rparr>
               in if m_success res then process_fill oid ord res current_date x1
                  else if \<not> str_has ''limit'' (m_reject_reason res)
                          \<and> \<not> str_has ''price'' (m_reject_reason res)
                       then process_reject oid ord x1
                       else x1)"

definition on_tick_with :: "matcher_fn \<Rightarrow> Tick \<Rightarrow> SimulatedExchange \<Rightarrow> SimulatedExchange" where
  "on_tick_with mf tick x =
     (let x1 = x\<lparr>x_current_time := k_timestamp tick\<rparr>;
          current_date = cpp_div (x_current_time x1) ms_per_day;
          x2 = x1\<lparr>x_account :=
                    update_position_price (k_symbol tick) (k_last_price tick) (x_account x1)\<rparr>
      in fold (match_step mf tick current_date) (map fst (x_orders x2)) x2)"

definition on_tick :: "Tick \<Rightarrow> SimulatedExchange \<Rightarrow> SimulatedExchange" where
  "on_tick = on_tick_with try_match_order"

definition on_tick_lot :: "Tick \<Rightarrow> SimulatedExchange \<Rightarrow> SimulatedExchange" where
  "on_tick_lot = on_tick_with try_match_order_lot"

definition cancel_order :: "string \<Rightarrow> int \<Rightarrow> SimulatedExchange \<Rightarrow> bool \<times> SimulatedExchange" where
  "cancel_order oid now x =
     (case map_of (x_orders x) oid of
        None \<Rightarrow> (False, x)
      | Some ord \<Rightarrow>
          if o_status ord \<noteq> PENDING then (False, x)
          else (True, set_order oid (ord\<lparr>o_status := CANCELLED, o_cancel_time := now\<rparr>)
                        (x\<lparr>x_account := release_order ord (x_account x)\<rparr>)))"

definition update_daily :: "int \<Rightarrow> SimulatedExchange \<Rightarrow> SimulatedExchange" where
  "update_daily current_date x =
     x\<lparr>x_account := update_available_volume current_date (x_account x)\<rparr>"

section \<open>Concrete inputs\<close>

text \<open>
  The seven-argument constructor of \<^verbatim>\<open>SimulatedOrder\<close>, a tick given by its fields, and
  a random stream that always returns 0 (no slippage).
\<close>

definition SimulatedOrder_new ::
  "string \<Rightarrow> string \<Rightarrow> OrderSide \<Rightarrow> OrderType \<Rightarrow> real \<Rightarrow> int \<Rightarrow> int \<Rightarrow> SimulatedOrder" where
  "SimulatedOrder_new oid smb sd ty pr vol st =
     \<lparr>o_order_id = oid, o_symbol = smb, o_side = sd, o_type = ty, o_price = pr, o_volume = vol,
      o_filled_volume = 0, o_status = PENDING, o_submit_time = st, o_cancel_time = 0,
      o_filled_time = 0, o_commission_rate = 25 / 100000, o_slippage_rate = 1 / 10000\<rparr>"

definition Tick_new :: "string \<Rightarrow> int \<Rightarrow> real \<Rightarrow> real \<Rightarrow> real \<Rightarrow> int \<Rightarrow> real \<Rightarrow> Tick" where
  "Tick_new smb ts lastp bid ask vol lc =
     \<lparr>k_symbol = smb, k_timestamp = ts, k_last_price = lastp, k_bid_price = bid,
      k_ask_price = ask, k_volume = vol, k_last_close = lc\<rparr>"

definition zero_rng :: "nat \<Rightarrow> real" where
  "zero_rng = (\<lambda>_. 0)"

text \<open>An account in the middle of a day: 1000 shares bought on 20260206, 300 of them frozen.\<close>

definition acct_settle :: SimulationAccount where
  "acct_settle =
     \<lparr>a_account_id = ''ACC'', a_initial_capital = 100000, a_available_cash = 90000,
      a_withdrawable_cash = 100000, a_frozen_cash = 1003, a_today_sell_amount = 500,
      a_realized_pnl = 0,
      a_positions = [''600000'' \<mapsto>
        (Position_new ''600000'' 1000 10 20260206)\<lparr>p_frozen_volume := 300\<rparr>]\<rparr>"

text \<open>
  A fresh exchange with capital \<open>cap\<close>; a limit buy of 100 shares of 000001 at 10.00
  submitted to it at time 1; a tick at which that order fills at 10.00.
\<close>

definition exch_fresh :: "real \<Rightarrow> SimulatedExchange" where
  "exch_fresh cap =
     \<lparr>x_account = \<lparr>a_account_id = ''ACC'', a_initial_capital = cap, a_available_cash = cap,
                    a_withdrawable_cash = cap, a_frozen_cash = 0, a_today_sell_amount = 0,
                    a_realized_pnl = 0, a_positions = Map.empty\<rparr>,
      x_matcher = OrderMatcher_new zero_rng, x_orders = [], x_trade_history = [],
      x_current_time = 0, x_order_counter = 0\<rparr>"

definition buy_100 :: SimulatedOrder where
  "buy_100 = SimulatedOrder_new [] ''000001'' BUY LIMIT 10 100 0"

definition buy_100_placed :: SimulatedOrder where
  "buy_100_placed = buy_100\<lparr>o_order_id := ''ORDER_1_000001_1'', o_submit_time := 1\<rparr>"

definition exch_buy_100 :: SimulatedExchange where
  "exch_buy_100 = snd (submit_order buy_100 1 (exch_fresh 100000))"

definition tick_000001 :: Tick where
  "tick_000001 = Tick_new ''000001'' 2 10 (999 / 100) 10 1000000 10"

text \<open>The same with 150 shares, and with 100000 shares of the Shanghai stock 600000.\<close>

definition buy_150 :: SimulatedOrder where
  "buy_150 = SimulatedOrder_new [] ''000001'' BUY LIMIT 10 150 0"

definition exch_buy_150 :: SimulatedExchange where
  "exch_buy_150 = snd (submit_order buy_150 1 (exch_fresh 100000))"

definition buy_sh :: SimulatedOrder where
  "buy_sh = SimulatedOrder_new [] ''600000'' BUY LIMIT 10 100000 0"

definition exch_buy_sh :: SimulatedExchange where
  "exch_buy_sh = snd (submit_order buy_sh 1 (exch_fresh 2000000))"

definition tick_600000 :: Tick where
  "tick_600000 = Tick_new ''600000'' 2 10 (999 / 100) 10 10000000 10"

text \<open>
  Two buy orders parked in the limit-up queue of 600000, in this order; a tick still at
  the upper limit 11.00, a tick that has opened, and a tick without a previous close.
\<close>

definition parked_1 :: SimulatedOrder where
  "parked_1 = SimulatedOrder_new ''ORDER_1_600000_1'' ''600000'' BUY LIMIT 11 100 1"

definition parked_2 :: SimulatedOrder where
  "parked_2 = SimulatedOrder_new ''ORDER_1_600000_2'' ''600000'' BUY LIMIT 11 200 1"

definition lq_two :: LimitQueue where
  "lq_two = add_to_limit_up_queue parked_2 (add_to_limit_up_queue parked_1 LimitQueue_new)"








section \<open>Sequences of calls\<close>

text \<open>
  Modelled from the spec: the orchestrator's \<^verbatim>\<open>daily_settlement(current_date)\<close>, which
  section 4.5 describes as a single call that delegates to the ledger's
  \<^verbatim>\<open>daily_settlement\<close>. \<^verbatim>\<open>simulated_exchange.cpp\<close> has no such method: its daily entry
  point is \<^verbatim>\<open>update_daily\<close>.
\<close>

definition exchange_daily_settlement :: "int \<Rightarrow> SimulatedExchange \<Rightarrow> SimulatedExchange" where
  "exchange_daily_settlement current_date x =
     x\<lparr>x_account := daily_settlement current_date (x_account x)\<rparr>"

text \<open>
  The public calls that change an exchange, and a run of them from left to right. The
  matcher is the parameter \<open>mf\<close> of \<open>on_tick_with\<close>.
\<close>

datatype ExchangeCall =
    Submit SimulatedOrder int
  | OnTick Tick
  | Cancel string int
  | UpdateDaily int
  | DailySettlement int

fun call :: "matcher_fn \<Rightarrow> ExchangeCall \<Rightarrow> SimulatedExchange \<Rightarrow> SimulatedExchange" where
  "call mf (Submit ord now) x = snd (submit_order ord now x)"
| "call mf (OnTick tick) x = on_tick_with mf tick x"
| "call mf (Cancel oid now) x = snd (cancel_order oid now x)"
| "call mf (UpdateDaily d) x = update_daily d x"
| "call mf (DailySettlement d) x = exchange_daily_settlement d x"

definition run_calls :: "matcher_fn \<Rightarrow> ExchangeCall list \<Rightarrow> SimulatedExchange \<Rightarrow> SimulatedExchange" where
  "run_calls mf cs x = fold (call mf) cs x"

section \<open>Invariants\<close>

text \<open>Every trade record so far carries a commission of at least 5.00.\<close>

definition fees_floored :: "SimulatedExchange \<Rightarrow> bool" where
  "fees_floored x = (\<forall>t \<in> set (x_trade_history x). 5 \<le> t_commission t)"

section \<open>The exchange beside a limit queue\<close>

text \<open>
  A \<^verbatim>\<open>LimitQueue\<close> is an object of its own. \<^verbatim>\<open>SimulatedExchange\<close> has no member of that
  class and none of its methods is handed one, so \<^verbatim>\<open>on_tick\<close>, called on an exchange that
  lives beside a queue, returns with the queue as it was.
\<close>

definition host_on_tick_with ::
  "matcher_fn \<Rightarrow> Tick \<Rightarrow> SimulatedExchange \<times> LimitQueue \<Rightarrow> SimulatedExchange \<times> LimitQueue" where
  "host_on_tick_with mf tick h = (on_tick_with mf tick (fst h), snd h)"

text \<open>The matcher answers a non-success that begins with "Price at limit", whatever its state.\<close>

definition at_price_limit :: "matcher_fn \<Rightarrow> SimulatedOrder \<Rightarrow> Tick \<Rightarrow> bool" where
  "at_price_limit mf ord tick =
     (\<forall>mt. \<not> m_success (fst (mf mt ord tick True))
            \<and> prefix ''Price at limit'' (m_reject_reason (fst (mf mt ord tick True))))"

text \<open>A limit buy at 12.00 when the previous close is 10.00: above the upper limit 11.00.\<close>

definition buy_12 :: SimulatedOrder where
  "buy_12 = SimulatedOrder_new [] ''000001'' BUY LIMIT 12 100 0"

definition buy_12_placed :: SimulatedOrder where
  "buy_12_placed = buy_12\<lparr>o_order_id := ''ORDER_1_000001_1'', o_submit_time := 1\<rparr>"

definition exch_buy_12 :: SimulatedExchange where
  "exch_buy_12 = snd (submit_order buy_12 1 (exch_fresh 100000))"

definition tick_limit_up :: Tick where
  "tick_limit_up = Tick_new ''000001'' 2 11 11 11 1000000 10"

text \<open>
  The shares of symbol \<open>s\<close> that an order keeps frozen: the volume of a pending sell order
  of that symbol. \<open>frozen_by_orders\<close> adds them up over the registry.
\<close>

definition pending_sell :: "string \<Rightarrow> SimulatedOrder \<Rightarrow> int" where
  "pending_sell s ord =
     (if o_status ord = PENDING \<and> o_side ord = SELL \<and> s = o_symbol ord then o_volume ord else 0)"

definition frozen_by_orders :: "string \<Rightarrow> (string \<times> SimulatedOrder) list \<Rightarrow> int" where
  "frozen_by_orders s os = sum_list (map (\<lambda>e. pending_sell s (snd e)) os)"

text \<open>
  An entry of the position map against the \<open>n\<close> shares that pending sell orders hold: no
  position and nothing held, or a position with a positive volume whose frozen volume
  covers \<open>n\<close> and whose frozen and available volumes each lie between 0 and the volume.
  The registry and the position map fit together (\<open>book_ok\<close>) when every pending order
  has a positive volume and every symbol's entry is right for what its orders hold.
\<close>

definition slot_ok :: "int \<Rightarrow> Position option \<Rightarrow> bool" where
  "slot_ok n slot =
     (case slot of
        None \<Rightarrow> n = 0
      | Some p \<Rightarrow> 0 < p_volume p \<and> n \<le> p_frozen_volume p \<and> 0 \<le> p_frozen_volume p
                  \<and> p_frozen_volume p \<le> p_volume p
                  \<and> 0 \<le> p_available_volume p \<and> p_available_volume p \<le> p_volume p)"

definition volumes_ok :: "(string \<times> SimulatedOrder) list \<Rightarrow> bool" where
  "volumes_ok os = (\<forall>e \<in> set os. o_status (snd e) = PENDING \<longrightarrow> 0 < o_volume (snd e))"

definition book_ok :: "(string \<times> SimulatedOrder) list \<Rightarrow> (string \<rightharpoonup> Position) \<Rightarrow> bool" where
  "book_ok os ps = (volumes_ok os \<and> (\<forall>s. slot_ok (frozen_by_orders s os) (ps s)))"

definition positions_ok :: "SimulatedExchange \<Rightarrow> bool" where
  "positions_ok x = book_ok (x_orders x) (a_positions (x_account x))"

text \<open>A matcher that fills an order in full or not at all, as both versions in the sources do.\<close>

definition fills_whole :: "matcher_fn \<Rightarrow> bool" where
  "fills_whole mf =
     (\<forall>mt ord tick c. m_success (fst (mf mt ord tick c))
        \<longrightarrow> m_filled_volume (fst (mf mt ord tick c)) = o_volume ord)"

text \<open>
  The ledger operations that change an account, called directly, and a run of them. A
  failed \<^verbatim>\<open>reduce_position\<close> leaves the account as it was.
\<close>

datatype LedgerCall =
    FreezeCash real
  | UnfreezeCash real
  | AddPosition string int real int
  | ReducePosition string int real
  | UpdatePositionPrice string real
  | UpdateAvailableVolume int
  | LedgerSettlement int
  | FreezePosition string int
  | UnfreezePosition string int

fun ledger_call :: "LedgerCall \<Rightarrow> SimulationAccount \<Rightarrow> SimulationAccount" where
  "ledger_call (FreezeCash amt) a = snd (freeze_cash amt a)"
| "ledger_call (UnfreezeCash amt) a = unfreeze_cash amt a"
| "ledger_call (AddPosition s v p d) a = snd (add_position s v p d a)"
| "ledger_call (ReducePosition s v p) a =
     (case reduce_position s v p a of None \<Rightarrow> a | Some (pnl, a') \<Rightarrow> a')"
| "ledger_call (UpdatePositionPrice s p) a = update_position_price s p a"
| "ledger_call (UpdateAvailableVolume d) a = update_available_volume d a"
| "ledger_call (LedgerSettlement d) a = daily_settlement d a"
| "ledger_call (FreezePosition s v) a = snd (freeze_position s v a)"
| "ledger_call (UnfreezePosition s v) a = unfreeze_position s v a"

definition run_ledger :: "LedgerCall list \<Rightarrow> SimulationAccount \<Rightarrow> SimulationAccount" where
  "run_ledger ls a = fold ledger_call ls a"

text \<open>What survives any run of direct ledger calls, for one entry of the position map.\<close>

definition ledger_slot_ok :: "Position option \<Rightarrow> bool" where
  "ledger_slot_ok slot =
     (case slot of
        None \<Rightarrow> True
      | Some p \<Rightarrow> 0 < p_volume p \<and> 0 \<le> p_frozen_volume p \<and> p_available_volume p \<le> p_volume p)"

definition ledger_ok :: "SimulationAccount \<Rightarrow> bool" where
  "ledger_ok a = (\<forall>s. ledger_slot_ok (a_positions a s))"

text \<open>
  A buy of 100 shares that fills on day 0, the daily update of day 1, then a sell order
  for the 100 shares; and a ledger on which 100 shares are bought and frozen, 50 of them
  sold by a direct call, and the day settled.
\<close>

definition sell_100 :: SimulatedOrder where
  "sell_100 = SimulatedOrder_new [] ''000001'' SELL LIMIT 10 100 0"

definition calls_buy_then_sell :: "ExchangeCall list" where
  "calls_buy_then_sell = [Submit buy_100 1, OnTick tick_000001, UpdateDaily 1, Submit sell_100 3]"

definition exch_sell_pending :: SimulatedExchange where
  "exch_sell_pending = run_calls try_match_order calls_buy_then_sell (exch_fresh 100000)"

definition ledger_calls_reduce :: "LedgerCall list" where
  "ledger_calls_reduce =
     [AddPosition ''600000'' 100 10 20260206, FreezePosition ''600000'' 100,
      ReducePosition ''600000'' 50 10]"

definition acct_reduced :: SimulationAccount where
  "acct_reduced = run_ledger ledger_calls_reduce (x_account (exch_fresh 100000))"

definition acct_reduced_settled :: SimulationAccount where
  "acct_reduced_settled = run_ledger [LedgerSettlement 20260207] acct_reduced"

text \<open>
  Every key of the registry ends in an underscore and the decimal numeral of a counter
  value that has been issued: \<^verbatim>\<open>generate_order_id\<close> increments the counter first.
\<close>

definition ids_issued :: "SimulatedExchange \<Rightarrow> bool" where
  "ids_issued x =
     (0 \<le> x_order_counter x
      \<and> (\<forall>k \<in> fst ` set (x_orders x).
            \<exists>pre c. k = pre @ ''_'' @ to_string c \<and> 0 \<le> c \<and> c \<le> x_order_counter x))"

section \<open>Properties\<close>

subsection \<open>Daily settlement\<close>

lemma unlock_position_unlocked:
  "p_buy_date (unlock_position d p) < d \<Longrightarrow>
     p_available_volume (unlock_position d p)
       = p_volume (unlock_position d p) - p_frozen_volume (unlock_position d p)"
  by (simp add: unlock_position_def split: if_splits)

text \<open>
  Claim C6. For every date \<open>d\<close>, right after \<^verbatim>\<open>daily_settlement(d)\<close> the withdrawable
  cash equals the available cash (which the call does not change), today's sell amount is
  0, the frozen cash is what it was, and every position bought strictly before \<open>d\<close> has
  \<open>available_volume = volume - frozen_volume\<close>.
\<close>

theorem daily_settlement_effect:
  "a_withdrawable_cash (daily_settlement d a) = a_available_cash (daily_settlement d a)
   \<and> a_available_cash (daily_settlement d a) = a_available_cash a
   \<and> a_today_sell_amount (daily_settlement d a) = 0
   \<and> a_frozen_cash (daily_settlement d a) = a_frozen_cash a
   \<and> (\<forall>s pos. a_positions (daily_settlement d a) s = Some pos \<longrightarrow> p_buy_date pos < d
         \<longrightarrow> p_available_volume pos = p_volume pos - p_frozen_volume pos)"
proof -
  have "p_available_volume pos = p_volume pos - p_frozen_volume pos"
    if "a_positions (daily_settlement d a) s = Some pos" and "p_buy_date pos < d" for s pos
  proof -
    from that(1) obtain p0 where "pos = unlock_position d p0"
      by (auto simp: daily_settlement_def)
    with that(2) show ?thesis
      using unlock_position_unlocked by blast
  qed
  then show ?thesis
    by (simp add: daily_settlement_def)
qed

theorem daily_settlement_effect_witness:
  "\<exists>pos. a_positions (daily_settlement 20260207 acct_settle) ''600000'' = Some pos
      \<and> p_buy_date pos < 20260207 \<and> p_available_volume pos = 700
      \<and> p_volume pos - p_frozen_volume pos = 700
      \<and> a_withdrawable_cash (daily_settlement 20260207 acct_settle) = 90000
      \<and> a_frozen_cash (daily_settlement 20260207 acct_settle) = 1003"
proof -
  let ?pos = "the (a_positions (daily_settlement 20260207 acct_settle) ''600000'')"
  have h1: "a_positions (daily_settlement 20260207 acct_settle) ''600000'' = Some ?pos"
    by (simp add: daily_settlement_def acct_settle_def)
  have h2: "p_buy_date ?pos < 20260207"
    by (simp add: daily_settlement_def acct_settle_def unlock_position_def Position_new_def)
  have v: "p_volume ?pos = 1000 \<and> p_frozen_volume ?pos = 300"
    by (simp add: daily_settlement_def acct_settle_def unlock_position_def Position_new_def)
  have c: "a_available_cash acct_settle = 90000 \<and> a_frozen_cash acct_settle = 1003"
    by (simp add: acct_settle_def)
  from daily_settlement_effect [of 20260207 acct_settle] h1 h2 v c show ?thesis
    by auto
qed

subsection \<open>Evaluation of the exchange on concrete inputs\<close>

lemmas money_defs = round_to_cent_def cpp_round_def

lemmas account_defs = freeze_cash_def unfreeze_cash_def add_position_def reduce_position_def
  update_position_price_def unfreeze_position_def freeze_position_def can_sell_def
  Position_new_def

lemmas matcher_defs = try_match_order_def try_match_order_lot_def validate_order_volume_def
  cpp_mod_def match_price_def base_price_of_def check_limit_price_def get_limit_pct_def
  starts_with_def check_liquidity_def cpp_div_def calculate_slippage_def draw_def
  MatchResult_ok_def MatchResult_fail_def OrderMatcher_new_def

lemmas exchange_defs = submit_order_def generate_order_id_def to_string_def to_digits.simps
  digit_char_def freeze_amount_def set_order_def on_tick_def on_tick_lot_def on_tick_with_def match_step_def
  process_fill_def process_reject_def release_order_def calculate_commission_def
  record_fill_def ms_per_day_def cancel_order_def

lemmas input_defs = SimulatedOrder_new_def Tick_new_def zero_rng_def exch_fresh_def buy_100_def
  buy_100_placed_def tick_000001_def buy_150_def buy_sh_def tick_600000_def

lemma exch_buy_100_eq:
  "exch_buy_100 = (exch_fresh 100000)
     \<lparr>x_account := (x_account (exch_fresh 100000))
                      \<lparr>a_available_cash := 98997, a_frozen_cash := 1003\<rparr>,
      x_orders := [(''ORDER_1_000001_1'', buy_100_placed)], x_order_counter := 1\<rparr>"
  by (simp add: exch_buy_100_def input_defs exchange_defs account_defs money_defs Let_def)

text \<open>
  Claim C1 (a BUY fill debits \<open>filled_price * filled_volume + commission\<close> from the available
  cash) against the code. \<^verbatim>\<open>process_fill\<close> unfreezes the estimate, then calls
  \<^verbatim>\<open>freeze_cash(actual_cost)\<close> and at once \<^verbatim>\<open>unfreeze_cash(actual_cost)\<close>, which its comment
  calls a direct deduction; the second call puts back what the first took. With 100000 of
  capital, a limit buy of 100 shares at 10.00 that fills at 10.00 with commission 5.00
  leaves 100000 available, not 100000 - 1005.
\<close>

theorem buy_fill_does_not_debit:
  "map_of (x_orders exch_buy_100) ''ORDER_1_000001_1'' = Some buy_100_placed
   \<and> a_available_cash (unfreeze_cash (freeze_amount buy_100_placed) (x_account exch_buy_100))
       = 100000
   \<and> (let x' = process_fill ''ORDER_1_000001_1'' buy_100_placed (MatchResult_ok 10 100) 0
                  exch_buy_100
      in map o_status (map snd (x_orders x')) = [FILLED]
         \<and> map t_commission (x_trade_history x') = [5]
         \<and> a_available_cash (x_account x') = 100000
         \<and> a_available_cash (x_account x') \<noteq> 100000 - (10 * 100 + 5))"
  by (simp add: exch_buy_100_eq input_defs exchange_defs account_defs money_defs matcher_defs
      Let_def)

text \<open>
  Claim C3 (the commission of a trade record is \<^verbatim>\<open>calculate_total_commission\<close> at the
  order's own rate, transfer fee included) against the code. \<^verbatim>\<open>process_fill\<close> calls the
  exchange's own \<^verbatim>\<open>calculate_commission\<close>, which has a fixed rate and no transfer fee. A
  buy of 100000 shares of 600000 at 10.00 is recorded with commission 250.00; the
  matcher's \<^verbatim>\<open>calculate_total_commission\<close> gives 252.00 for it.
\<close>

theorem fill_commission_ignores_transfer_fee:
  "(let x' = on_tick tick_600000 exch_buy_sh
    in map o_status (map snd (x_orders x')) = [FILLED]
       \<and> map (\<lambda>t. (t_symbol t, t_side t, t_price t, t_volume t, t_commission t))
            (x_trade_history x')
           = [(''600000'', BUY, 10, 100000, 250)])
   \<and> calculate_total_commission (OrderMatcher_new zero_rng) BUY ''600000'' 10 100000
        (o_commission_rate buy_sh) = 252"
  by (simp add: exch_buy_sh_def input_defs exchange_defs account_defs money_defs matcher_defs
      Let_def calculate_total_commission_def)

text \<open>
  Claim C5 (a filled BUY has a volume that is a multiple of 100; a BUY of 150 never
  produces a trade record) against the code. \<^verbatim>\<open>submit_order\<close> does not look at the lot
  size, and \<^verbatim>\<open>try_match_order\<close> of \<^verbatim>\<open>cpp/src/simulation/order_matcher.cpp\<close> does not call
  \<^verbatim>\<open>validate_order_volume\<close>: a limit buy of 150 shares fills in full.
\<close>

theorem odd_lot_buy_fills:
  "(let x' = on_tick tick_000001 exch_buy_150
    in map (\<lambda>ord. (o_side ord, o_status ord, o_filled_volume ord)) (map snd (x_orders x'))
         = [(BUY, FILLED, 150)]
       \<and> map (\<lambda>t. (t_side t, t_volume t)) (x_trade_history x') = [(BUY, 150)])
   \<and> (150 :: int) mod 100 \<noteq> 0"
  by (simp add: exch_buy_150_def input_defs exchange_defs account_defs money_defs matcher_defs
      Let_def)

text \<open>
  With the other copy of \<^verbatim>\<open>try_match_order\<close>, which validates the volume first, the
  same order is rejected at the tick and no trade is recorded.
\<close>

lemma odd_lot_buy_rejected_by_validating_matcher:
  "(let x' = on_tick_lot tick_000001 exch_buy_150
    in map (\<lambda>ord. (o_side ord, o_status ord, o_filled_volume ord)) (map snd (x_orders x'))
         = [(BUY, REJECTED, 0)]
       \<and> x_trade_history x' = [])"
  by (simp add: exch_buy_150_def input_defs exchange_defs account_defs money_defs matcher_defs
      Let_def)

subsection \<open>Rounding to a double\<close>

text \<open>
  The exponent brackets its argument between two powers of two, unless the argument is
  subnormal. A direct evaluation of \<open>dbl_exponent\<close> walks through more than a thousand
  bits; \<open>to_double_normal\<close> evaluates \<open>to_double\<close> from the bracket instead.
\<close>

lemma two_powi_pos: "0 < (2::real) powi n"
  by simp

lemma two_powi_less: "(2::real) powi m < 2 powi n \<longleftrightarrow> m < n"
proof
  assume "(2::real) powi m < 2 powi n"
  show "m < n"
  proof (rule ccontr)
    assume "\<not> m < n"
    then have "(2::real) powi n \<le> 2 powi m"
      by (intro power_int_increasing) simp_all
    with \<open>(2::real) powi m < 2 powi n\<close> show False
      by simp
  qed
next
  assume "m < n"
  then show "(2::real) powi m < 2 powi n"
    by (intro power_int_strict_increasing) simp_all
qed

lemma two_powi_le: "(2::real) powi m \<le> 2 powi n \<longleftrightarrow> m \<le> n"
  using two_powi_less [of n m] by (simp add: not_less [symmetric])

lemma two_powi_add: "(2::real) powi (m + n) = 2 powi m * 2 powi n"
  by (simp add: power_int_add)

lemma two_powi_diff: "(2::real) powi (m - n) = 2 powi m / 2 powi n"
  by (simp add: power_int_diff)

lemma of_int_abs_le: "\<bar>k\<bar> \<le> n \<Longrightarrow> \<bar>real_of_int k\<bar> \<le> real_of_int n"
  by linarith

lemma two_powi_nat: "0 \<le> n \<Longrightarrow> (2::real) powi n = 2 ^ nat n"
  by (simp add: power_int_def)

lemma dbl_exponent_ge: "- 1022 \<le> dbl_exponent x"
  by (simp add: dbl_exponent_def)

lemma dbl_exponent_upper: "\<bar>x\<bar> < 2 powi (dbl_exponent x + 1)"
proof -
  define n where "n = \<lfloor>\<bar>x\<bar> * 2 ^ 1074\<rfloor>"
  define b where "b = bitlen n"
  have e: "dbl_exponent x = max (- 1022) (b - 1075)"
    by (simp add: dbl_exponent_def n_def b_def)
  have b0: "0 \<le> b"
    by (simp add: b_def bitlen_nonneg)
  have "n < 2 ^ nat b"
    using bitlen_le_iff_power [of n b] b0 by (simp add: b_def)
  then have "n + 1 \<le> 2 ^ nat b"
    by simp
  then have "real_of_int (n + 1) \<le> real_of_int (2 ^ nat b)"
    by (rule of_int_le_iff [THEN iffD2])
  moreover have "\<bar>x\<bar> * 2 ^ 1074 < real_of_int (n + 1)"
    unfolding n_def by linarith
  ultimately have "\<bar>x\<bar> * 2 ^ 1074 < 2 ^ nat b"
    by simp
  then have "\<bar>x\<bar> * 2 powi 1074 < 2 powi b"
    using b0 by (simp add: two_powi_nat)
  then have "\<bar>x\<bar> < 2 powi b / 2 powi 1074"
    by (simp add: pos_less_divide_eq)
  also have "\<dots> = 2 powi (b - 1074)"
    by (simp add: power_int_diff)
  also have "\<dots> \<le> 2 powi (dbl_exponent x + 1)"
    unfolding two_powi_le e by simp
  finally show ?thesis .
qed

lemma dbl_exponent_lower: "dbl_exponent x = - 1022 \<or> 2 powi dbl_exponent x \<le> \<bar>x\<bar>"
proof (cases "dbl_exponent x = - 1022")
  case False
  define n where "n = \<lfloor>\<bar>x\<bar> * 2 ^ 1074\<rfloor>"
  define b where "b = bitlen n"
  have e: "dbl_exponent x = max (- 1022) (b - 1075)"
    by (simp add: dbl_exponent_def n_def b_def)
  with False have b: "dbl_exponent x = b - 1075" "53 < b"
    by (simp_all add: max_def split: if_splits)
  have "2 ^ (nat b - 1) \<le> n"
    using bitlen_ge_iff_power [of b n] b(2) by (simp add: b_def)
  then have "real_of_int (2 ^ (nat b - 1)) \<le> real_of_int n"
    by (rule of_int_le_iff [THEN iffD2])
  also have "\<dots> \<le> \<bar>x\<bar> * 2 ^ 1074"
    unfolding n_def by simp
  finally have "2 ^ (nat b - 1) \<le> \<bar>x\<bar> * 2 ^ 1074"
    by simp
  moreover have "nat b - 1 = nat (b - 1)"
    using b(2) by simp
  ultimately have "2 powi (b - 1) \<le> \<bar>x\<bar> * 2 powi 1074"
    using b(2) by (simp add: two_powi_nat)
  then have "2 powi (b - 1) / 2 powi 1074 \<le> \<bar>x\<bar>"
    by (simp add: pos_divide_le_eq)
  moreover have "(2::real) powi (b - 1) / 2 powi 1074 = 2 powi (b - 1 - 1074)"
    by (simp add: power_int_diff)
  ultimately show ?thesis
    using b(1) by simp
qed simp

lemma dbl_exponent_eqI:
  assumes "2 powi e \<le> \<bar>x\<bar>" and "\<bar>x\<bar> < 2 powi (e + 1)" and "- 1022 \<le> e"
  shows "dbl_exponent x = e"
proof -
  from assms(1) dbl_exponent_upper [of x] have "(2::real) powi e < 2 powi (dbl_exponent x + 1)"
    by simp
  then have le: "e \<le> dbl_exponent x"
    by (simp add: two_powi_less)
  show ?thesis
  proof (cases "dbl_exponent x = - 1022")
    case True
    with le assms(3) show ?thesis by simp
  next
    case False
    with dbl_exponent_lower [of x] assms(2) have "(2::real) powi dbl_exponent x < 2 powi (e + 1)"
      by simp
    then have "dbl_exponent x \<le> e"
      by (simp add: two_powi_less)
    with le show ?thesis by simp
  qed
qed

lemma dbl_exponent_zero: "dbl_exponent 0 = - 1022"
  by (simp add: dbl_exponent_def)

lemma dbl_ulp_pos: "0 < dbl_ulp x"
  by (simp add: dbl_ulp_def)

lemma round_half_even_of_int: "round_half_even (of_int k) = k"
  by (simp add: round_half_even_def)

lemma round_half_even_ge: "of_int n \<le> x \<Longrightarrow> n \<le> round_half_even x"
proof -
  assume "of_int n \<le> x"
  then have "n \<le> \<lfloor>x\<rfloor>"
    by (simp add: le_floor_iff)
  then show ?thesis
    by (simp add: round_half_even_def Let_def)
qed

lemma round_half_even_le: "x \<le> of_int n \<Longrightarrow> round_half_even x \<le> n"
proof -
  assume le: "x \<le> of_int n"
  show ?thesis
  proof (cases "x = of_int n")
    case True
    then show ?thesis by (simp add: round_half_even_of_int)
  next
    case False
    with le have "x < of_int n" by simp
    then have "\<lfloor>x\<rfloor> < n"
      by (simp add: floor_less_iff)
    then show ?thesis
      by (simp add: round_half_even_def Let_def)
  qed
qed


lemma to_double_cases:
  obtains (pinf) "to_double x = PInf"
      and "2 ^ 1024 \<le> of_int (round_half_even (x / dbl_ulp x)) * dbl_ulp x"
  | (ninf) "to_double x = NInf"
      and "of_int (round_half_even (x / dbl_ulp x)) * dbl_ulp x \<le> - (2 ^ 1024)"
  | (finite) "to_double x = Finite (of_int (round_half_even (x / dbl_ulp x)) * dbl_ulp x)"
  by (cases "2 ^ 1024 \<le> of_int (round_half_even (x / dbl_ulp x)) * dbl_ulp x";
      cases "of_int (round_half_even (x / dbl_ulp x)) * dbl_ulp x \<le> - (2 ^ 1024)")
    (simp_all add: to_double_def Let_def)


lemma dbl_mantissa_bound: "\<bar>round_half_even (x / dbl_ulp x)\<bar> \<le> 2 ^ 53"
proof -
  have "\<bar>x\<bar> / dbl_ulp x < 2 powi (dbl_exponent x + 1) / dbl_ulp x"
    using dbl_exponent_upper [of x] dbl_ulp_pos [of x] by (simp add: divide_strict_right_mono)
  also have "\<dots> = 2 ^ 53"
    by (simp add: dbl_ulp_def two_powi_add two_powi_diff)
  finally have "\<bar>x\<bar> / dbl_ulp x < 2 ^ 53" .
  moreover have "\<bar>dbl_ulp x\<bar> = dbl_ulp x"
    using dbl_ulp_pos [of x] by simp
  ultimately have "\<bar>x / dbl_ulp x\<bar> < of_int (2 ^ 53)"
    by (simp add: abs_divide)
  then have "x / dbl_ulp x \<le> of_int (2 ^ 53)" and "of_int (- (2 ^ 53)) \<le> x / dbl_ulp x"
    unfolding of_int_minus by linarith+
  then have "round_half_even (x / dbl_ulp x) \<le> 2 ^ 53"
    and "- (2 ^ 53) \<le> round_half_even (x / dbl_ulp x)"
    by (simp_all only: round_half_even_le round_half_even_ge)
  then show ?thesis
    by simp
qed

lemma to_double_normal:
  assumes "2 powi e \<le> \<bar>x\<bar>" and "\<bar>x\<bar> < 2 powi (e + 1)" and "- 1022 \<le> e" and "e \<le> 1022"
  shows "to_double x
           = Finite (of_int (round_half_even (x / 2 powi (e - 52))) * 2 powi (e - 52))"
proof -
  have e: "dbl_exponent x = e"
    using assms(1-3) by (rule dbl_exponent_eqI)
  then have u: "dbl_ulp x = 2 powi (e - 52)"
    by (simp add: dbl_ulp_def)
  have "\<bar>of_int (round_half_even (x / dbl_ulp x)) * dbl_ulp x\<bar>
          = \<bar>of_int (round_half_even (x / dbl_ulp x))\<bar> * dbl_ulp x"
    using dbl_ulp_pos [of x] by (simp add: abs_mult)
  also have "\<dots> \<le> of_int (2 ^ 53) * dbl_ulp x"
    using of_int_abs_le [OF dbl_mantissa_bound [of x]] dbl_ulp_pos [of x]
    by (intro mult_right_mono) simp_all
  also have "\<dots> = 2 powi (e + 1)"
    by (simp add: u two_powi_add two_powi_diff)
  finally have "\<bar>of_int (round_half_even (x / dbl_ulp x)) * dbl_ulp x\<bar> < 2 powi 1024"
    using two_powi_less [of "e + 1" 1024] assms(4) by simp
  then have "\<bar>of_int (round_half_even (x / dbl_ulp x)) * dbl_ulp x\<bar> < 2 ^ 1024"
    by simp
  then have "\<not> 2 ^ 1024 \<le> of_int (round_half_even (x / dbl_ulp x)) * dbl_ulp x"
    and "\<not> of_int (round_half_even (x / dbl_ulp x)) * dbl_ulp x \<le> - (2 ^ 1024)"
    by linarith+
  then have "to_double x = Finite (of_int (round_half_even (x / dbl_ulp x)) * dbl_ulp x)"
    by (cases x rule: to_double_cases) simp_all
  then show ?thesis
    by (simp only: u)
qed









lemma to_double_multiple:
  assumes "y = of_int k * dbl_ulp y" and "\<bar>y\<bar> < 2 ^ 1024"
  shows "to_double y = Finite y"
proof -
  from assms(1) have "y / dbl_ulp y = of_int k"
    using dbl_ulp_pos [of y] by (simp add: field_simps)
  then have "round_half_even (y / dbl_ulp y) = k"
    by (simp only: round_half_even_of_int)
  with assms(1) have y: "of_int (round_half_even (y / dbl_ulp y)) * dbl_ulp y = y"
    by simp
  from assms(2) have "\<not> 2 ^ 1024 \<le> y" and "\<not> y \<le> - (2 ^ 1024)"
    by linarith+
  then show ?thesis
    by (cases y rule: to_double_cases) (simp_all add: y)
qed

lemma to_double_idem:
  assumes "to_double x = Finite y"
  shows "to_double y = Finite y"
proof -
  define e where "e = dbl_exponent x"
  define u where "u = dbl_ulp x"
  define m where "m = round_half_even (x / u)"
  have u: "u = 2 powi (e - 52)" and u0: "0 < u"
    by (simp_all add: u_def e_def dbl_ulp_def)
  from assms have y: "y = of_int m * u" and fin: "\<bar>y\<bar> < 2 ^ 1024"
    by (auto simp add: to_double_def Let_def m_def u_def split: if_splits)
  have ay: "\<bar>y\<bar> = of_int \<bar>m\<bar> * u"
    using u0 by (simp add: y abs_mult)
  have mb: "\<bar>m\<bar> \<le> 2 ^ 53"
    unfolding m_def u_def by (rule dbl_mantissa_bound)
  have e_ge: "- 1022 \<le> e"
    unfolding e_def by (rule dbl_exponent_ge)
  have p52: "of_int (2 ^ 52) * u = 2 powi e" and p53: "of_int (2 ^ 53) * u = 2 powi (e + 1)"
    by (simp_all add: u two_powi_diff two_powi_add)
  have lo: "e = - 1022 \<or> 2 ^ 52 \<le> \<bar>m\<bar>"
  proof (cases "e = - 1022")
    case False
    with dbl_exponent_lower [of x] have "2 powi e \<le> \<bar>x\<bar>"
      by (simp add: e_def)
    then have "2 powi e / u \<le> \<bar>x\<bar> / u"
      using u0 by (simp add: divide_right_mono)
    moreover have "2 powi e / u = of_int (2 ^ 52)"
      by (simp add: u two_powi_diff)
    moreover have "\<bar>u\<bar> = u"
      using u0 by simp
    ultimately have big: "of_int (2 ^ 52) \<le> \<bar>x / u\<bar>"
      by (simp add: abs_divide)
    have "2 ^ 52 \<le> \<bar>m\<bar>"
    proof (cases "0 \<le> x / u")
      case True
      with big have "of_int (2 ^ 52) \<le> x / u"
        by simp
      then have "2 ^ 52 \<le> m"
        unfolding m_def by (rule round_half_even_ge)
      then show ?thesis by simp
    next
      case False
      with big have "x / u \<le> of_int (- (2 ^ 52))"
        by simp
      then have "m \<le> - (2 ^ 52)"
        unfolding m_def by (rule round_half_even_le)
      then show ?thesis by simp
    qed
    then show ?thesis ..
  qed simp
  consider (top) "\<bar>m\<bar> = 2 ^ 53" | (normal) "2 ^ 52 \<le> \<bar>m\<bar>" "\<bar>m\<bar> < 2 ^ 53"
    | (subnormal) "\<bar>m\<bar> < 2 ^ 52" "e = - 1022"
    using mb lo by linarith
  then show ?thesis
  proof cases
    case top
    then have "\<bar>y\<bar> = 2 powi (e + 1)"
      by (simp only: ay p53)
    then have "2 powi (e + 1) \<le> \<bar>y\<bar>" and "\<bar>y\<bar> < 2 powi (e + 1 + 1)"
      using two_powi_less [of "e + 1" "e + 1 + 1"] by simp_all
    then have "dbl_exponent y = e + 1"
      using e_ge by (intro dbl_exponent_eqI) simp_all
    then have uy: "dbl_ulp y = 2 * u"
      by (simp add: dbl_ulp_def u two_powi_diff two_powi_add)
    from top have "m = 2 ^ 53 \<or> m = - (2 ^ 53)"
      by linarith
    then have "m = 2 * (m div 2)"
      by auto
    then have "real_of_int m = 2 * real_of_int (m div 2)"
      by (metis of_int_mult of_int_numeral)
    then have "of_int m * u = of_int (m div 2) * (2 * u)"
      by simp
    then have "y = of_int (m div 2) * dbl_ulp y"
      unfolding uy by (simp only: y)
    then show ?thesis
      using fin by (rule to_double_multiple)
  next
    case normal
    then have "real_of_int (2 ^ 52) \<le> real_of_int \<bar>m\<bar>" and "real_of_int \<bar>m\<bar> < real_of_int (2 ^ 53)"
      by (simp_all only: of_int_le_iff of_int_less_iff)
    then have "of_int (2 ^ 52) * u \<le> \<bar>y\<bar>" and "\<bar>y\<bar> < of_int (2 ^ 53) * u"
      using u0 unfolding ay by (simp_all only: mult_le_cancel_right_pos mult_less_cancel_right_pos)
    then have "2 powi e \<le> \<bar>y\<bar>" and "\<bar>y\<bar> < 2 powi (e + 1)"
      by (simp_all only: p52 p53)
    then have "dbl_exponent y = e"
      using e_ge by (rule dbl_exponent_eqI)
    then have uy: "dbl_ulp y = u"
      by (simp add: dbl_ulp_def u)
    have "y = of_int m * dbl_ulp y"
      unfolding uy by (rule y)
    then show ?thesis
      using fin by (rule to_double_multiple)
  next
    case subnormal
    then have "real_of_int \<bar>m\<bar> < real_of_int (2 ^ 52)"
      by (simp only: of_int_less_iff)
    then have "\<bar>y\<bar> < of_int (2 ^ 52) * u"
      using u0 unfolding ay by (simp only: mult_less_cancel_right_pos)
    then have small: "\<bar>y\<bar> < 2 powi (- 1022)"
      by (simp only: p52 subnormal(2))
    have "dbl_exponent y = - 1022"
    proof (rule ccontr)
      assume "dbl_exponent y \<noteq> - 1022"
      with dbl_exponent_lower [of y] small
      have "(2::real) powi dbl_exponent y < 2 powi (- 1022)"
        by linarith
      then have "dbl_exponent y < - 1022"
        by (simp only: two_powi_less)
      with dbl_exponent_ge [of y] show False
        by simp
    qed
    then have uy: "dbl_ulp y = u"
      by (simp add: dbl_ulp_def u subnormal(2))
    have "y = of_int m * dbl_ulp y"
      unfolding uy by (rule y)
    then show ?thesis
      using fin by (rule to_double_multiple)
  qed
qed

text \<open>The doubles that the concrete ticks and the limit prices of 600000 go through.\<close>

lemma double_values:
  "to_double (1 / 10) = Finite (3602879701896397 / 36028797018963968)"
  "to_double (1 / 100) = Finite (5764607523034235 / 576460752303423488)"
  "to_double (39631676720860365 / 36028797018963968)
      = Finite (2476979795053773 / 2251799813685248)"
  "to_double (32425917317067571 / 36028797018963968)
      = Finite (8106479329266893 / 9007199254740992)"
  "to_double 10 = Finite 10"
  "to_double (12384898975268865 / 1125899906842624) = Finite 11"
  "to_double 1100 = Finite 1100"
  "to_double 11 = Finite 11"
  "to_double (40532396646334465 / 4503599627370496) = Finite 9"
  "to_double 900 = Finite 900"
  "to_double 9 = Finite 9"
  "to_double 2 = Finite 2"
  "to_double (21 / 2) = Finite (21 / 2)"
  "to_double (- (1 / 2)) = Finite (- (1 / 2))"
  "to_double (3 / 2) = Finite (3 / 2)"
  "to_double (1099 / 100) = Finite (6186819988100219 / 562949953421312)"
  "to_double (- (5629499534213 / 562949953421312)) = Finite (- (5629499534213 / 562949953421312))"
  "to_double (1120270407308411 / 562949953421312) = Finite (1120270407308411 / 562949953421312)"
  "to_double (- 2) = Finite (- 2)"
  "to_double (901 / 100) = Finite (5072179080326021 / 562949953421312)"
  "to_double (- (1120270407308411 / 562949953421312))
      = Finite (- (1120270407308411 / 562949953421312))"
  "to_double (5629499534213 / 562949953421312) = Finite (5629499534213 / 562949953421312)"
  "to_double (23 / 20) = Finite (2589569785738035 / 2251799813685248)"
  "to_double (6414312037154840794091316356055 / 5070602400912917605986812821504)
      = Finite (5697053528623677 / 4503599627370496)"
  "to_double (142426338215591925 / 1125899906842624) = Finite (8901646138474495 / 70368744177664)"
  "to_double (63 / 50) = Finite (5674535530486825 / 4503599627370496)"
proof -
  show "to_double (1 / 10) = Finite (3602879701896397 / 36028797018963968)"
    using to_double_normal [of "- 4" "1 / 10"] by (simp add: round_half_even_def)
  show "to_double (1 / 100) = Finite (5764607523034235 / 576460752303423488)"
    using to_double_normal [of "- 7" "1 / 100"] by (simp add: round_half_even_def)
  show "to_double (39631676720860365 / 36028797018963968)
      = Finite (2476979795053773 / 2251799813685248)"
    using to_double_normal [of 0 "39631676720860365 / 36028797018963968"]
    by (simp add: round_half_even_def)
  show "to_double (32425917317067571 / 36028797018963968)
      = Finite (8106479329266893 / 9007199254740992)"
    using to_double_normal [of "- 1" "32425917317067571 / 36028797018963968"]
    by (simp add: round_half_even_def)
  show "to_double 10 = Finite 10"
    using to_double_normal [of 3 10] by (simp add: round_half_even_def)
  show "to_double (12384898975268865 / 1125899906842624) = Finite 11"
    using to_double_normal [of 3 "12384898975268865 / 1125899906842624"]
    by (simp add: round_half_even_def)
  show "to_double 1100 = Finite 1100"
    using to_double_normal [of 10 1100] by (simp add: round_half_even_def)
  show "to_double 11 = Finite 11"
    using to_double_normal [of 3 11] by (simp add: round_half_even_def)
  show "to_double (40532396646334465 / 4503599627370496) = Finite 9"
    using to_double_normal [of 3 "40532396646334465 / 4503599627370496"]
    by (simp add: round_half_even_def)
  show "to_double 900 = Finite 900"
    using to_double_normal [of 9 900] by (simp add: round_half_even_def)
  show "to_double 9 = Finite 9"
    using to_double_normal [of 3 9] by (simp add: round_half_even_def)
  show "to_double 2 = Finite 2"
    using to_double_normal [of 1 2] by (simp add: round_half_even_def)
  show "to_double (21 / 2) = Finite (21 / 2)"
    using to_double_normal [of 3 "21 / 2"] by (simp add: round_half_even_def)
  show "to_double (- (1 / 2)) = Finite (- (1 / 2))"
    using to_double_normal [of "- 1" "- (1 / 2)"] by (simp add: round_half_even_def)
  show "to_double (3 / 2) = Finite (3 / 2)"
    using to_double_normal [of 0 "3 / 2"] by (simp add: round_half_even_def)
  show "to_double (1099 / 100) = Finite (6186819988100219 / 562949953421312)"
    using to_double_normal [of 3 "1099 / 100"] by (simp add: round_half_even_def)
  show "to_double (- (5629499534213 / 562949953421312))
      = Finite (- (5629499534213 / 562949953421312))"
    using to_double_normal [of "- 7" "- (5629499534213 / 562949953421312)"]
    by (simp add: round_half_even_def)
  show "to_double (1120270407308411 / 562949953421312)
      = Finite (1120270407308411 / 562949953421312)"
    using to_double_normal [of 0 "1120270407308411 / 562949953421312"]
    by (simp add: round_half_even_def)
  show "to_double (- 2) = Finite (- 2)"
    using to_double_normal [of 1 "- 2"] by (simp add: round_half_even_def)
  show "to_double (901 / 100) = Finite (5072179080326021 / 562949953421312)"
    using to_double_normal [of 3 "901 / 100"] by (simp add: round_half_even_def)
  show "to_double (- (1120270407308411 / 562949953421312))
      = Finite (- (1120270407308411 / 562949953421312))"
    using to_double_normal [of 0 "- (1120270407308411 / 562949953421312)"]
    by (simp add: round_half_even_def)
  show "to_double (5629499534213 / 562949953421312) = Finite (5629499534213 / 562949953421312)"
    using to_double_normal [of "- 7" "5629499534213 / 562949953421312"]
    by (simp add: round_half_even_def)
  show "to_double (23 / 20) = Finite (2589569785738035 / 2251799813685248)"
    using to_double_normal [of 0 "23 / 20"] by (simp add: round_half_even_def)
  show "to_double (6414312037154840794091316356055 / 5070602400912917605986812821504)
      = Finite (5697053528623677 / 4503599627370496)"
    using to_double_normal [of 0 "6414312037154840794091316356055 / 5070602400912917605986812821504"]
    by (simp add: round_half_even_def)
  show "to_double (142426338215591925 / 1125899906842624)
      = Finite (8901646138474495 / 70368744177664)"
    using to_double_normal [of 6 "142426338215591925 / 1125899906842624"]
    by (simp add: round_half_even_def)
  show "to_double (63 / 50) = Finite (5674535530486825 / 4503599627370496)"
    using to_double_normal [of 0 "63 / 50"] by (simp add: round_half_even_def)
qed

subsection \<open>The at-limit test\<close>






text \<open>
  The rounding shows in the limit price itself: for a last close of 1.15 the product with
  \<^verbatim>\<open>1.0 + 0.10\<close> falls just below 1.265 and the limit-up price is 1.26, where exact
  arithmetic would give 1.27.
\<close>

lemma limit_up_price_of_1_15:
  "calculate_limit_up_price ''600000'' (to_double (115 / 100)) = to_double (126 / 100)"
  "cpp_round (115 / 100 * (1 + 10 / 100) * 100) / 100 = 127 / 100"
  by (simp_all add: calculate_limit_up_price_def lq_get_limit_pct_def starts_with_def
      cpp_round_def double_values)

subsection \<open>Draining the limit queues\<close>







subsection \<open>The shape of the exchange's steps\<close>

lemma fold_invariant:
  "(\<And>k y. P y \<Longrightarrow> P (f k y)) \<Longrightarrow> P x \<Longrightarrow> P (fold f ks x)"
  by (induction ks arbitrary: x) auto

lemma match_step_cases:
  obtains (skip) "match_step mf tick d oid x = x"
  | (wait) mt' where "match_step mf tick d oid x = x\<lparr>x_matcher := mt'\<rparr>"
  | (fill) ord res mt' where "map_of (x_orders x) oid = Some ord" and "o_status ord = PENDING"
      and "o_symbol ord = k_symbol tick" and "mf (x_matcher x) ord tick True = (res, mt')"
      and "m_success res"
      and "match_step mf tick d oid x = process_fill oid ord res d (x\<lparr>x_matcher := mt'\<rparr>)"
  | (reject) ord mt' where "map_of (x_orders x) oid = Some ord" and "o_status ord = PENDING"
      and "match_step mf tick d oid x = process_reject oid ord (x\<lparr>x_matcher := mt'\<rparr>)"
proof (cases "map_of (x_orders x) oid")
  case None
  then show ?thesis
    using skip by (simp add: match_step_def)
next
  case (Some ord)
  show ?thesis
  proof (cases "o_status ord \<noteq> PENDING \<or> o_symbol ord \<noteq> k_symbol tick")
    case True
    with Some show ?thesis
      using skip by (auto simp: match_step_def)
  next
    case False
    obtain res mt' where m: "mf (x_matcher x) ord tick True = (res, mt')"
      by (cases "mf (x_matcher x) ord tick True")
    show ?thesis
    proof (cases "m_success res")
      case True
      with Some False m show ?thesis
        using fill [of ord res mt'] by (simp add: match_step_def)
    next
      case nosuccess: False
      show ?thesis
      proof (cases "\<not> str_has ''limit'' (m_reject_reason res)
                      \<and> \<not> str_has ''price'' (m_reject_reason res)")
        case True
        with Some False m nosuccess show ?thesis
          using reject [of ord mt'] by (simp add: match_step_def)
      next
        case False
        with Some \<open>\<not> (o_status ord \<noteq> PENDING \<or> o_symbol ord \<noteq> k_symbol tick)\<close> m nosuccess
        show ?thesis
          using wait [of mt'] by (auto simp: match_step_def)
      qed
    qed
  qed
qed

lemma process_fill_cases:
  obtains (buy) a2 where "o_side ord = BUY"
      and "freeze_cash (of_int (m_filled_volume res) * m_filled_price res
              + calculate_commission BUY (m_filled_price res) (m_filled_volume res))
             (unfreeze_cash (freeze_amount ord) (x_account x)) = (True, a2)"
      and "process_fill oid ord res d x =
             record_fill oid ord res
               (calculate_commission BUY (m_filled_price res) (m_filled_volume res)) 0
               (x\<lparr>x_account :=
                    snd (add_position (o_symbol ord) (m_filled_volume res) (m_filled_price res) d
                      (unfreeze_cash (of_int (m_filled_volume res) * m_filled_price res
                          + calculate_commission BUY (m_filled_price res) (m_filled_volume res))
                         a2))\<rparr>)"
  | (buy_reject) "o_side ord = BUY"
      and "process_fill oid ord res d x =
             process_reject oid ord
               (x\<lparr>x_account := unfreeze_cash (freeze_amount ord) (x_account x)\<rparr>)"
  | (sell) pnl a1 where "o_side ord = SELL"
      and "reduce_position (o_symbol ord) (m_filled_volume res) (m_filled_price res)
             (x_account x) = Some (pnl, a1)"
      and "process_fill oid ord res d x =
             record_fill oid ord res
               (calculate_commission SELL (m_filled_price res) (m_filled_volume res)) pnl
               (x\<lparr>x_account :=
                    unfreeze_position (o_symbol ord) (m_filled_volume res)
                      (unfreeze_cash
                         (calculate_commission SELL (m_filled_price res) (m_filled_volume res))
                         (snd (freeze_cash
                            (calculate_commission SELL (m_filled_price res) (m_filled_volume res))
                            a1)))\<rparr>)"
  | (sell_reject) "o_side ord = SELL"
      and "process_fill oid ord res d x = process_reject oid ord x"
proof (cases "o_side ord")
  case BUY
  let ?cost = "of_int (m_filled_volume res) * m_filled_price res
              + calculate_commission BUY (m_filled_price res) (m_filled_volume res)"
  obtain b a2 where f: "freeze_cash ?cost (unfreeze_cash (freeze_amount ord) (x_account x)) = (b, a2)"
    by (cases "freeze_cash ?cost (unfreeze_cash (freeze_amount ord) (x_account x))")
  show ?thesis
  proof (cases b)
    case True
    with BUY f show ?thesis
      using buy [of a2] by (simp add: process_fill_def Let_def)
  next
    case False
    with BUY f show ?thesis
      using buy_reject by (simp add: process_fill_def Let_def)
  qed
next
  case SELL
  show ?thesis
  proof (cases "reduce_position (o_symbol ord) (m_filled_volume res) (m_filled_price res)
             (x_account x)")
    case None
    with SELL show ?thesis
      using sell_reject by (simp add: process_fill_def Let_def)
  next
    case (Some r)
    obtain pnl a1 where "r = (pnl, a1)"
      by (cases r)
    with SELL Some show ?thesis
      using sell [of pnl a1] by (simp add: process_fill_def Let_def)
  qed
qed

subsection \<open>What the ledger operations leave alone\<close>

lemma freeze_cash_frame:
  assumes "freeze_cash amt a = (b, a')"
  shows "a_withdrawable_cash a' = a_withdrawable_cash a" and "a_positions a' = a_positions a"
  using assms by (auto simp: freeze_cash_def Let_def split: if_splits)

lemma freeze_cash_snd_frame [simp]:
  "a_withdrawable_cash (snd (freeze_cash amt a)) = a_withdrawable_cash a"
  "a_positions (snd (freeze_cash amt a)) = a_positions a"
  using freeze_cash_frame [of amt a "fst (freeze_cash amt a)" "snd (freeze_cash amt a)"]
  by simp_all

lemma unfreeze_cash_frame [simp]:
  "a_withdrawable_cash (unfreeze_cash amt a) = a_withdrawable_cash a"
  "a_positions (unfreeze_cash amt a) = a_positions a"
  by (simp_all add: unfreeze_cash_def Let_def)

lemma add_position_withdrawable [simp]:
  "a_withdrawable_cash (snd (add_position s v p d a)) = a_withdrawable_cash a"
  by (simp add: add_position_def Let_def split: option.splits)

lemma reduce_position_withdrawable:
  "reduce_position s v p a = Some (pnl, a') \<Longrightarrow> a_withdrawable_cash a' = a_withdrawable_cash a"
  by (auto simp: reduce_position_def Let_def split: if_splits option.splits)

lemma freeze_position_withdrawable [simp]:
  "a_withdrawable_cash (snd (freeze_position s v a)) = a_withdrawable_cash a"
  by (simp add: freeze_position_def split: option.splits)

lemma unfreeze_position_withdrawable [simp]:
  "a_withdrawable_cash (unfreeze_position s v a) = a_withdrawable_cash a"
  by (simp add: unfreeze_position_def split: option.splits)

lemma update_position_price_withdrawable [simp]:
  "a_withdrawable_cash (update_position_price s p a) = a_withdrawable_cash a"
  by (simp add: update_position_price_def Let_def split: option.splits)

lemma update_available_volume_withdrawable [simp]:
  "a_withdrawable_cash (update_available_volume d a) = a_withdrawable_cash a"
  by (simp add: update_available_volume_def)

lemma release_order_withdrawable [simp]:
  "a_withdrawable_cash (release_order ord a) = a_withdrawable_cash a"
  by (simp add: release_order_def)

lemma set_order_account [simp]: "x_account (set_order oid ord x) = x_account x"
  by (simp add: set_order_def)

lemma record_fill_account [simp]: "x_account (record_fill oid ord res c pnl x) = x_account x"
  by (simp add: record_fill_def Let_def)

lemma process_reject_withdrawable [simp]:
  "a_withdrawable_cash (x_account (process_reject oid ord x)) = a_withdrawable_cash (x_account x)"
  by (simp add: process_reject_def)

lemma process_fill_withdrawable [simp]:
  "a_withdrawable_cash (x_account (process_fill oid ord res d x))
     = a_withdrawable_cash (x_account x)"
proof (cases rule: process_fill_cases [of ord res x oid d])
  case (buy a2)
  from buy(2) have "a_withdrawable_cash a2 = a_withdrawable_cash (x_account x)"
    by (simp add: freeze_cash_frame(1))
  with buy(3) show ?thesis by simp
next
  case buy_reject
  then show ?thesis by simp
next
  case (sell pnl a1)
  from sell(2) have "a_withdrawable_cash a1 = a_withdrawable_cash (x_account x)"
    by (rule reduce_position_withdrawable)
  with sell(3) show ?thesis by simp
next
  case sell_reject
  then show ?thesis by simp
qed

lemma match_step_withdrawable:
  "a_withdrawable_cash (x_account (match_step mf tick d oid x))
     = a_withdrawable_cash (x_account x)"
  by (cases rule: match_step_cases [of mf tick d oid x]) simp_all

lemma on_tick_with_withdrawable:
  "a_withdrawable_cash (x_account (on_tick_with mf tick x)) = a_withdrawable_cash (x_account x)"
proof -
  let ?x2 = "x\<lparr>x_current_time := k_timestamp tick,
               x_account := update_position_price (k_symbol tick) (k_last_price tick)
                              (x_account x)\<rparr>"
  have "a_withdrawable_cash (x_account
          (fold (match_step mf tick (cpp_div (k_timestamp tick) ms_per_day)) ks ?x2))
        = a_withdrawable_cash (x_account x)" for ks
    by (rule fold_invariant) (simp_all add: match_step_withdrawable)
  then show ?thesis
    by (simp add: on_tick_with_def Let_def)
qed

lemma submit_order_cases:
  obtains (rejected) oid ord' where "o_status ord' = REJECTED"
      and "snd (submit_order ord now x)
             = set_order oid ord' (x\<lparr>x_order_counter := x_order_counter x + 1\<rparr>)"
      and "oid = ''ORDER_'' @ to_string now @ ''_'' @ o_symbol ord @ ''_''
                   @ to_string (x_order_counter x + 1)"
  | (buy) oid ord' a' where "o_side ord' = BUY" and "o_status ord' = PENDING"
      and "0 < o_volume ord'"
      and "freeze_cash (freeze_amount ord') (x_account x) = (True, a')"
      and "snd (submit_order ord now x)
             = set_order oid ord'
                 (x\<lparr>x_order_counter := x_order_counter x + 1, x_account := a'\<rparr>)"
      and "oid = ''ORDER_'' @ to_string now @ ''_'' @ o_symbol ord @ ''_''
                   @ to_string (x_order_counter x + 1)"
  | (sell) oid ord' a' where "o_side ord' = SELL" and "o_status ord' = PENDING"
      and "0 < o_volume ord'"
      and "freeze_position (o_symbol ord') (o_volume ord') (x_account x) = (True, a')"
      and "snd (submit_order ord now x)
             = set_order oid ord'
                 (x\<lparr>x_order_counter := x_order_counter x + 1, x_account := a'\<rparr>)"
      and "oid = ''ORDER_'' @ to_string now @ ''_'' @ o_symbol ord @ ''_''
                   @ to_string (x_order_counter x + 1)"
proof -
  let ?oid = "''ORDER_'' @ to_string now @ ''_'' @ o_symbol ord @ ''_''
                @ to_string (x_order_counter x + 1)"
  let ?x1 = "x\<lparr>x_order_counter := x_order_counter x + 1\<rparr>"
  let ?ord = "ord\<lparr>o_order_id := ?oid, o_status := PENDING, o_filled_volume := 0,
                  o_submit_time := now\<rparr>"
  let ?rej = "?ord\<lparr>o_status := REJECTED\<rparr>"
  have gen: "generate_order_id (o_symbol ord) now x = (?oid, ?x1)"
    by (simp add: generate_order_id_def Let_def)
  have rej: "snd (submit_order ord now x) = set_order ?oid ?rej ?x1 \<Longrightarrow> thesis"
    using rejected [of ?rej ?oid] by simp
  show thesis
  proof (cases "o_volume ord \<le> 0 \<or> (o_type ord = LIMIT \<and> o_price ord \<le> 0)")
    case True
    then have "snd (submit_order ord now x) = set_order ?oid ?rej ?x1"
      by (auto simp: submit_order_def gen Let_def)
    then show ?thesis
      by (rule rej)
  next
    case False
    then have v1: "\<not> o_volume ord \<le> 0" and v2: "\<not> (o_type ord = LIMIT \<and> o_price ord \<le> 0)"
      by auto
    show ?thesis
    proof (cases "o_side ord")
      case BUY
      obtain b a' where f: "freeze_cash (freeze_amount ?ord) (x_account x) = (b, a')"
        by (cases "freeze_cash (freeze_amount ?ord) (x_account x)")
      show ?thesis
      proof (cases b)
        case True
        with f have "snd (submit_order ord now x) = set_order ?oid ?ord (?x1\<lparr>x_account := a'\<rparr>)"
          by (simp add: submit_order_def gen Let_def v1 v2 BUY)
        with True BUY f v1 show ?thesis
          using buy [of ?ord a' ?oid] by simp
      next
        case False
        with f have "snd (submit_order ord now x) = set_order ?oid ?rej ?x1"
          by (simp add: submit_order_def gen Let_def v1 v2 BUY)
        then show ?thesis
          by (rule rej)
      qed
    next
      case SELL
      obtain b a' where f: "freeze_position (o_symbol ord) (o_volume ord) (x_account x) = (b, a')"
        by (cases "freeze_position (o_symbol ord) (o_volume ord) (x_account x)")
      show ?thesis
      proof (cases "b \<and> can_sell (o_symbol ord) (o_volume ord)
                           (cpp_div (x_current_time x) ms_per_day) (x_account x)")
        case True
        with f have "snd (submit_order ord now x) = set_order ?oid ?ord (?x1\<lparr>x_account := a'\<rparr>)"
          by (simp add: submit_order_def gen Let_def v1 v2 SELL)
        with True SELL f v1 show ?thesis
          using sell [of ?ord a' ?oid] by simp
      next
        case False
        with f have "snd (submit_order ord now x) = set_order ?oid ?rej ?x1"
          by (auto simp add: submit_order_def gen Let_def v1 v2 SELL)
        then show ?thesis
          by (rule rej)
      qed
    qed
  qed
qed

lemma freeze_position_frame:
  "freeze_position s v a = (b, a') \<Longrightarrow> a_withdrawable_cash a' = a_withdrawable_cash a"
  using freeze_position_withdrawable [of s v a] by simp

lemma submit_order_withdrawable:
  "a_withdrawable_cash (x_account (snd (submit_order ord now x)))
     = a_withdrawable_cash (x_account x)"
proof (cases rule: submit_order_cases [of ord now x])
  case (rejected oid ord')
  then show ?thesis by simp
next
  case (buy oid ord' a')
  then show ?thesis by (simp add: freeze_cash_frame(1))
next
  case (sell oid ord' a')
  then show ?thesis by (simp add: freeze_position_frame)
qed

lemma cancel_order_withdrawable:
  "a_withdrawable_cash (x_account (snd (cancel_order oid now x)))
     = a_withdrawable_cash (x_account x)"
  by (simp add: cancel_order_def split: option.splits)

text \<open>
  Claim C10. \<^verbatim>\<open>withdrawable_cash\<close> is set by the account constructor (to the initial
  capital) and by \<^verbatim>\<open>daily_settlement\<close> (to the available cash). Every other ledger
  operation, and every exchange operation built from them (\<^verbatim>\<open>submit_order\<close>, \<^verbatim>\<open>on_tick\<close>
  with either matcher, \<^verbatim>\<open>cancel_order\<close>, \<^verbatim>\<open>update_daily\<close>), leaves it as it was.
\<close>

theorem withdrawable_cash_frame:
  "(\<forall>a0. SimulationAccount_new aid capital = Some a0 \<longrightarrow> a_withdrawable_cash a0 = capital)
   \<and> a_withdrawable_cash (daily_settlement d a) = a_available_cash a
   \<and> a_withdrawable_cash (snd (freeze_cash amt a)) = a_withdrawable_cash a
   \<and> a_withdrawable_cash (unfreeze_cash amt a) = a_withdrawable_cash a
   \<and> a_withdrawable_cash (snd (add_position s v p d a)) = a_withdrawable_cash a
   \<and> (\<forall>pnl a'. reduce_position s v p a = Some (pnl, a')
         \<longrightarrow> a_withdrawable_cash a' = a_withdrawable_cash a)
   \<and> a_withdrawable_cash (snd (freeze_position s v a)) = a_withdrawable_cash a
   \<and> a_withdrawable_cash (unfreeze_position s v a) = a_withdrawable_cash a
   \<and> a_withdrawable_cash (update_position_price s p a) = a_withdrawable_cash a
   \<and> a_withdrawable_cash (update_available_volume d a) = a_withdrawable_cash a
   \<and> a_withdrawable_cash (x_account (snd (submit_order ord now x)))
       = a_withdrawable_cash (x_account x)
   \<and> a_withdrawable_cash (x_account (on_tick_with mf tick x))
       = a_withdrawable_cash (x_account x)
   \<and> a_withdrawable_cash (x_account (on_tick tick x)) = a_withdrawable_cash (x_account x)
   \<and> a_withdrawable_cash (x_account (on_tick_lot tick x)) = a_withdrawable_cash (x_account x)
   \<and> a_withdrawable_cash (x_account (snd (cancel_order oid now x)))
       = a_withdrawable_cash (x_account x)
   \<and> a_withdrawable_cash (x_account (update_daily d x)) = a_withdrawable_cash (x_account x)"
proof -
  have "a_withdrawable_cash a0 = capital" if "SimulationAccount_new aid capital = Some a0" for a0
    using that by (auto simp: SimulationAccount_new_def split: if_splits)
  moreover have "a_withdrawable_cash (daily_settlement d a) = a_available_cash a"
    by (simp add: daily_settlement_def)
  moreover have "a_withdrawable_cash (x_account (update_daily d x))
                   = a_withdrawable_cash (x_account x)"
    by (simp add: update_daily_def)
  ultimately show ?thesis
    by (simp add: reduce_position_withdrawable submit_order_withdrawable
        on_tick_with_withdrawable on_tick_def on_tick_lot_def cancel_order_withdrawable)
qed

theorem withdrawable_cash_frame_witness:
  "(\<exists>a0. SimulationAccount_new ''ACC'' 100000 = Some a0 \<and> a_withdrawable_cash a0 = 100000)
   \<and> (\<exists>pnl a'. reduce_position ''600000'' 100 11 acct_settle = Some (pnl, a')
         \<and> a_available_cash a' = 91100 \<and> a_withdrawable_cash a' = 100000)
   \<and> a_available_cash (x_account exch_buy_100) = 98997
   \<and> a_withdrawable_cash (x_account exch_buy_100) = 100000
   \<and> a_withdrawable_cash (x_account (on_tick tick_000001 exch_buy_100)) = 100000"
proof -
  let ?r = "the (reduce_position ''600000'' 100 11 acct_settle)"
  note frame = withdrawable_cash_frame [of "''ACC''" 100000 0 acct_settle 0 "''600000''" 100 11
      buy_100 1 "exch_fresh 100000" try_match_order tick_000001 "[]"]
  note frame' = withdrawable_cash_frame [of "''ACC''" 100000 0 acct_settle 0 "''600000''" 100 11
      buy_100 1 exch_buy_100 try_match_order tick_000001 "[]"]
  have c: "SimulationAccount_new ''ACC'' 100000 = Some (x_account (exch_fresh 100000))"
    by (simp add: SimulationAccount_new_def exch_fresh_def)
  with frame have 1: "a_withdrawable_cash (x_account (exch_fresh 100000)) = 100000"
    by blast
  have r: "reduce_position ''600000'' 100 11 acct_settle = Some (fst ?r, snd ?r)"
    by (simp add: reduce_position_def acct_settle_def Position_new_def Let_def)
  with frame have "a_withdrawable_cash (snd ?r) = a_withdrawable_cash acct_settle"
    by blast
  then have 2: "a_withdrawable_cash (snd ?r) = 100000"
    by (simp add: acct_settle_def)
  have 3: "a_available_cash (snd ?r) = 91100"
    by (simp add: reduce_position_def acct_settle_def Position_new_def Let_def money_defs)
  have 4: "a_available_cash (x_account exch_buy_100) = 98997"
    by (simp add: exch_buy_100_eq)
  from frame have "a_withdrawable_cash (x_account exch_buy_100)
      = a_withdrawable_cash (x_account (exch_fresh 100000))"
    unfolding exch_buy_100_def by blast
  with 1 have 5: "a_withdrawable_cash (x_account exch_buy_100) = 100000"
    by simp
  from frame' have "a_withdrawable_cash (x_account (on_tick tick_000001 exch_buy_100))
      = a_withdrawable_cash (x_account exch_buy_100)"
    by blast
  with 5 have 6: "a_withdrawable_cash (x_account (on_tick tick_000001 exch_buy_100)) = 100000"
    by simp
  from c 1 r 2 3 4 5 6 show ?thesis
    by blast
qed

subsection \<open>The fee floor\<close>

lemma cpp_round_ge:
  assumes "of_int n \<le> x" and "0 \<le> n"
  shows "of_int n \<le> cpp_round x"
proof -
  from assms have "0 \<le> x"
    by (metis of_int_0_le_iff order_trans)
  moreover from assms(1) have "n \<le> \<lfloor>x + 1 / 2\<rfloor>"
    by (simp add: le_floor_iff)
  ultimately show ?thesis
    by (simp add: cpp_round_def)
qed

lemma calculate_commission_floor:
  assumes "sd = BUY \<or> (0 < pr \<and> 0 < vol)"
  shows "5 \<le> calculate_commission sd pr vol"
proof -
  let ?turnover = "pr * of_int vol"
  let ?c = "max (?turnover * (25 / 100000)) 5"
  let ?c' = "(if sd = SELL then ?c + ?turnover * (1 / 1000) else ?c)"
  have "5 \<le> ?c'"
  proof (cases sd)
    case BUY
    then show ?thesis by simp
  next
    case SELL
    with assms have "0 < ?turnover" by simp
    then have "0 \<le> ?turnover * (1 / 1000)" by simp
    moreover have "5 \<le> ?c" by simp
    ultimately show ?thesis
      using SELL by (simp del: max.bounded_iff add: add_increasing2)
  qed
  then have "of_int 500 \<le> ?c' * 100" by simp
  then have "of_int 500 \<le> cpp_round (?c' * 100)"
    by (rule cpp_round_ge) simp
  then have "5 \<le> cpp_round (?c' * 100) / 100"
    by linarith
  moreover have "calculate_commission sd pr vol = cpp_round (?c' * 100) / 100"
    by (simp only: calculate_commission_def Let_def)
  ultimately show ?thesis
    by (simp only:)
qed

lemma reduce_position_positive:
  "reduce_position s v p a = Some r \<Longrightarrow> 0 < v \<and> 0 < p"
  by (auto simp: reduce_position_def split: if_splits)

lemma set_order_trade_history [simp]:
  "x_trade_history (set_order oid ord x) = x_trade_history x"
  by (simp add: set_order_def)

lemma process_reject_trade_history [simp]:
  "x_trade_history (process_reject oid ord x) = x_trade_history x"
  by (simp add: process_reject_def)

lemma fees_floored_updates [simp]:
  "fees_floored (x\<lparr>x_account := a\<rparr>) = fees_floored x"
  "fees_floored (x\<lparr>x_matcher := mt\<rparr>) = fees_floored x"
  "fees_floored (x\<lparr>x_current_time := ct\<rparr>) = fees_floored x"
  "fees_floored (x\<lparr>x_order_counter := c\<rparr>) = fees_floored x"
  "fees_floored (set_order oid ord x) = fees_floored x"
  "fees_floored (process_reject oid ord x) = fees_floored x"
  by (simp_all add: fees_floored_def)

lemma record_fill_fees_floored:
  "fees_floored x \<Longrightarrow> 5 \<le> c \<Longrightarrow> fees_floored (record_fill oid ord res c pnl x)"
  by (simp add: fees_floored_def record_fill_def Let_def)

lemma process_fill_fees_floored:
  assumes "fees_floored x"
  shows "fees_floored (process_fill oid ord res d x)"
proof (cases rule: process_fill_cases [of ord res x oid d])
  case (buy a2)
  from buy(3) assms show ?thesis
    by (simp add: record_fill_fees_floored calculate_commission_floor)
next
  case buy_reject
  with assms show ?thesis by simp
next
  case (sell pnl a1)
  from sell(2) have "0 < m_filled_volume res \<and> 0 < m_filled_price res"
    by (rule reduce_position_positive)
  then have "5 \<le> calculate_commission SELL (m_filled_price res) (m_filled_volume res)"
    by (simp add: calculate_commission_floor)
  with sell(3) assms show ?thesis
    by (simp add: record_fill_fees_floored)
next
  case sell_reject
  with assms show ?thesis by simp
qed

lemma match_step_fees_floored:
  "fees_floored x \<Longrightarrow> fees_floored (match_step mf tick d oid x)"
  by (cases rule: match_step_cases [of mf tick d oid x])
    (simp_all add: process_fill_fees_floored)

lemma on_tick_with_fees_floored:
  assumes "fees_floored x"
  shows "fees_floored (on_tick_with mf tick x)"
proof -
  have "fees_floored (fold (match_step mf tick d) ks y)" if "fees_floored y" for d ks y
    using match_step_fees_floored that by (rule fold_invariant)
  with assms show ?thesis
    by (simp add: on_tick_with_def Let_def)
qed

lemma submit_order_fees_floored:
  "fees_floored x \<Longrightarrow> fees_floored (snd (submit_order ord now x))"
  by (cases rule: submit_order_cases [of ord now x]) simp_all

lemma cancel_order_fees_floored:
  "fees_floored x \<Longrightarrow> fees_floored (snd (cancel_order oid now x))"
  by (simp add: cancel_order_def split: option.splits)

lemma call_fees_floored: "fees_floored x \<Longrightarrow> fees_floored (call mf c x)"
  by (cases c)
    (simp_all add: submit_order_fees_floored on_tick_with_fees_floored
      cancel_order_fees_floored update_daily_def exchange_daily_settlement_def)

lemma SimulatedExchange_new_Some:
  assumes "SimulatedExchange_new aid capital seed = Some x0"
  shows "x_orders x0 = []" and "x_trade_history x0 = []" and "a_positions (x_account x0) = Map.empty"
  using assms
  by (auto simp: SimulatedExchange_new_def SimulationAccount_new_def
      split: option.splits if_splits)

text \<open>
  Claim C8. Every trade record that an exchange has appended to its trade history, after
  any run of public calls from its construction and with either matcher, has a commission
  of at least 5.00.
\<close>

theorem trade_commission_floor:
  assumes "SimulatedExchange_new aid capital seed = Some x0"
    and "t \<in> set (x_trade_history (run_calls mf cs x0))"
  shows "5 \<le> t_commission t"
proof -
  from assms(1) have "fees_floored x0"
    by (simp add: fees_floored_def SimulatedExchange_new_Some(2))
  with call_fees_floored have "fees_floored (fold (call mf) cs x0)"
    by (rule fold_invariant)
  with assms(2) show ?thesis
    by (simp add: fees_floored_def run_calls_def)
qed

lemma exch_fresh_new: "SimulatedExchange_new ''ACC'' cap zero_rng = Some (exch_fresh cap)" if "0 < cap"
  using that by (simp add: SimulatedExchange_new_def SimulationAccount_new_def exch_fresh_def)

theorem trade_commission_floor_witness:
  "SimulatedExchange_new ''ACC'' 100000 zero_rng = Some (exch_fresh 100000)
   \<and> map t_volume (x_trade_history
        (run_calls try_match_order [Submit buy_100 1, OnTick tick_000001] (exch_fresh 100000)))
       = [100]
   \<and> hd (x_trade_history
        (run_calls try_match_order [Submit buy_100 1, OnTick tick_000001] (exch_fresh 100000)))
       \<in> set (x_trade_history
        (run_calls try_match_order [Submit buy_100 1, OnTick tick_000001] (exch_fresh 100000)))
   \<and> 5 \<le> t_commission (hd (x_trade_history
        (run_calls try_match_order [Submit buy_100 1, OnTick tick_000001] (exch_fresh 100000))))"
proof -
  let ?x = "run_calls try_match_order [Submit buy_100 1, OnTick tick_000001] (exch_fresh 100000)"
  have new: "SimulatedExchange_new ''ACC'' 100000 zero_rng = Some (exch_fresh 100000)"
    by (simp add: exch_fresh_new)
  have run: "?x = on_tick tick_000001 exch_buy_100"
    by (simp add: run_calls_def on_tick_def exch_buy_100_def)
  have "map t_volume (x_trade_history (on_tick tick_000001 exch_buy_100)) = [100]"
    by (simp add: exch_buy_100_eq input_defs exchange_defs account_defs money_defs matcher_defs
        Let_def)
  with run have vols: "map t_volume (x_trade_history ?x) = [100]"
    by simp
  then have "x_trade_history ?x \<noteq> []"
    by auto
  then have mem: "hd (x_trade_history ?x) \<in> set (x_trade_history ?x)"
    by simp
  from trade_commission_floor [OF new mem] new vols mem show ?thesis
    by simp
qed

subsection \<open>Cancellation\<close>

lemma map_of_set_order [simp]:
  "map_of (x_orders (set_order oid ord x)) k = (if k = oid then Some ord else map_of (x_orders x) k)"
  by (simp add: set_order_def update_conv')

lemma cancel_order_refused:
  assumes "map_of (x_orders x) oid = None
           \<or> (\<exists>ord. map_of (x_orders x) oid = Some ord \<and> o_status ord \<noteq> PENDING)"
  shows "cancel_order oid now x = (False, x)"
  using assms by (auto simp: cancel_order_def)

lemma cancel_order_accepted:
  assumes "cancel_order oid now x = (True, x')"
  shows "\<exists>ord. map_of (x_orders x') oid = Some ord \<and> o_status ord = CANCELLED"
  using assms by (auto simp: cancel_order_def split: option.splits if_splits)

subsection \<open>Orders at the price limit\<close>

lemma str_has_append: "str_has pat (xs @ pat @ ys)"
proof (induction xs)
  case Nil
  show ?case
  proof (cases "pat @ ys")
    case Nil
    then show ?thesis by simp
  next
    case (Cons a list)
    then have "prefix pat (a # list)"
      by (metis prefixI)
    with Cons show ?thesis by simp
  qed
next
  case (Cons x xs)
  then show ?case by simp
qed

lemma prefix_price_at_limit_has_limit:
  assumes "prefix ''Price at limit'' r"
  shows "str_has ''limit'' r"
proof -
  from assms obtain ys where "r = ''Price at limit'' @ ys"
    by (auto simp: prefix_def)
  then have "r = ''Price at '' @ ''limit'' @ ys"
    by simp
  then show ?thesis
    by (simp only: str_has_append)
qed

lemma process_fill_other_order:
  "k \<noteq> oid \<Longrightarrow> map_of (x_orders (process_fill oid ord res d x)) k = map_of (x_orders x) k"
  by (cases rule: process_fill_cases [of ord res x oid d])
    (simp_all add: record_fill_def process_reject_def Let_def)

lemma process_reject_other_order:
  "k \<noteq> oid \<Longrightarrow> map_of (x_orders (process_reject oid ord x)) k = map_of (x_orders x) k"
  by (simp add: process_reject_def)

lemma match_step_other_order:
  "k \<noteq> oid \<Longrightarrow> map_of (x_orders (match_step mf tick d oid x)) k = map_of (x_orders x) k"
  by (cases rule: match_step_cases [of mf tick d oid x])
    (simp_all add: process_fill_other_order process_reject_other_order)

lemma match_step_parked_order:
  assumes "map_of (x_orders x) k = Some ord" and "at_price_limit mf ord tick"
  shows "map_of (x_orders (match_step mf tick d oid x)) k = Some ord"
proof (cases "k = oid")
  case False
  with assms(1) show ?thesis
    by (simp add: match_step_other_order)
next
  case True
  obtain res mt' where m: "mf (x_matcher x) ord tick True = (res, mt')"
    by (cases "mf (x_matcher x) ord tick True")
  with assms(2) have "\<not> m_success res" and "prefix ''Price at limit'' (m_reject_reason res)"
    by (auto simp: at_price_limit_def dest: spec [of _ "x_matcher x"])
  then have "\<not> m_success res" and "str_has ''limit'' (m_reject_reason res)"
    by (simp_all add: prefix_price_at_limit_has_limit)
  with True assms(1) m show ?thesis
    by (simp add: match_step_def)
qed

lemma on_tick_with_parked_order:
  assumes "map_of (x_orders x) k = Some ord" and "at_price_limit mf ord tick"
  shows "map_of (x_orders (on_tick_with mf tick x)) k = Some ord"
proof -
  have "map_of (x_orders (fold (match_step mf tick d) ks y)) k = Some ord"
    if "map_of (x_orders y) k = Some ord" for d ks y
    using _ that
    by (rule fold_invariant [where P = "\<lambda>y. map_of (x_orders y) k = Some ord"])
      (simp add: match_step_parked_order assms(2))
  with assms(1) show ?thesis
    by (simp add: on_tick_with_def Let_def)
qed

lemma calculate_slippage_pair:
  "\<exists>p mt'. calculate_slippage sd b v r mt = (p, mt')"
  by (cases "calculate_slippage sd b v r mt") simp

lemma match_price_failure_any_state:
  assumes "\<not> m_success (fst (match_price up down mt ord tick c))"
  shows "fst (match_price up down mt' ord tick c) = fst (match_price up down mt ord tick c)"
proof (cases "base_price_of ord tick")
  case (Inl reason)
  then show ?thesis
    by (simp add: match_price_def)
next
  case (Inr base)
  show ?thesis
  proof (cases "c \<and> k_last_close tick > 0
                  \<and> \<not> check_limit_price (o_symbol ord) base (k_last_close tick)")
    case True
    with Inr show ?thesis
      by (simp add: match_price_def)
  next
    case nolimit: False
    show ?thesis
    proof (cases "check_liquidity (o_volume ord) tick (o_side ord)")
      case False
      then show ?thesis
        by (simp add: match_price_def Inr nolimit)
    next
      case True
      obtain p mt2 where "calculate_slippage (o_side ord) base (o_volume ord)
          (if o_slippage_rate ord > 0 then o_slippage_rate ord else om_default_slippage_rate mt)
          mt = (p, mt2)"
        using calculate_slippage_pair by blast
      then have "m_success (fst (match_price up down mt ord tick c))"
        by (simp add: match_price_def MatchResult_ok_def Let_def Inr nolimit True)
      with assms show ?thesis
        by simp
    qed
  qed
qed

lemma try_match_order_failure_any_state:
  assumes "\<not> m_success (fst (try_match_order mt ord tick c))"
  shows "fst (try_match_order mt' ord tick c) = fst (try_match_order mt ord tick c)"
proof (cases "o_volume ord \<le> 0")
  case True
  then show ?thesis
    by (simp add: try_match_order_def)
next
  case False
  with assms show ?thesis
    using match_price_failure_any_state
      [of "''Price at limit up''" "''Price at limit down''" mt ord tick c mt']
    by (simp add: try_match_order_def)
qed

lemma try_match_order_lot_failure_any_state:
  assumes "\<not> m_success (fst (try_match_order_lot mt ord tick c))"
  shows "fst (try_match_order_lot mt' ord tick c) = fst (try_match_order_lot mt ord tick c)"
proof -
  obtain b msg where v: "validate_order_volume (o_volume ord) (o_side ord) 0 = (b, msg)"
    by (cases "validate_order_volume (o_volume ord) (o_side ord) 0")
  show ?thesis
  proof (cases b)
    case False
    with v show ?thesis
      by (simp add: try_match_order_lot_def)
  next
    case True
    with v assms show ?thesis
      using match_price_failure_any_state
        [of "''Price at limit up - queuing''" "''Price at limit down - queuing''"
          mt ord tick c mt']
      by (simp add: try_match_order_lot_def)
  qed
qed

text \<open>
  For the two matchers of the sources a non-success does not depend on the state of the
  matcher, so \<open>at_price_limit\<close> is what one call of the matcher answers.
\<close>

lemma at_price_limit_iff:
  assumes "mf = try_match_order \<or> mf = try_match_order_lot"
  shows "at_price_limit mf ord tick
     \<longleftrightarrow> \<not> m_success (fst (mf mt ord tick True))
         \<and> prefix ''Price at limit'' (m_reject_reason (fst (mf mt ord tick True)))"
proof
  assume "at_price_limit mf ord tick"
  then show "\<not> m_success (fst (mf mt ord tick True))
         \<and> prefix ''Price at limit'' (m_reject_reason (fst (mf mt ord tick True)))"
    unfolding at_price_limit_def by (rule spec)
next
  assume r: "\<not> m_success (fst (mf mt ord tick True))
         \<and> prefix ''Price at limit'' (m_reject_reason (fst (mf mt ord tick True)))"
  have same: "fst (mf mt' ord tick True) = fst (mf mt ord tick True)" for mt'
  proof (cases "mf = try_match_order")
    case True
    with r show ?thesis
      using try_match_order_failure_any_state [of mt ord tick True mt'] by simp
  next
    case False
    with assms have "mf = try_match_order_lot"
      by simp
    with r show ?thesis
      using try_match_order_lot_failure_any_state [of mt ord tick True mt'] by simp
  qed
  show "at_price_limit mf ord tick"
    unfolding at_price_limit_def
  proof
    fix mt'
    from r same [of mt'] show "\<not> m_success (fst (mf mt' ord tick True))
         \<and> prefix ''Price at limit'' (m_reject_reason (fst (mf mt' ord tick True)))"
      by simp
  qed
qed

lemma exch_buy_12_eq:
  "exch_buy_12 = (exch_fresh 100000)
     \<lparr>x_account := (x_account (exch_fresh 100000))
                      \<lparr>a_available_cash := 987964 / 10, a_frozen_cash := 12036 / 10\<rparr>,
      x_orders := [(''ORDER_1_000001_1'', buy_12_placed)], x_order_counter := 1\<rparr>"
  by (simp add: exch_buy_12_def buy_12_def buy_12_placed_def input_defs exchange_defs
      account_defs money_defs Let_def)

lemma buy_12_at_price_limit:
  "at_price_limit try_match_order buy_12_placed tick_limit_up"
  "at_price_limit try_match_order_lot buy_12_placed tick_limit_up"
  by (simp_all add: at_price_limit_def buy_12_def buy_12_placed_def tick_limit_up_def input_defs
      matcher_defs Let_def)

text \<open>
  Claim C2, as stated, fails: the exchange has no limit queue to insert into. A pending
  limit buy at 12.00 meets a tick with previous close 10.00; the matcher answers
  "Price at limit up"; after \<^verbatim>\<open>on_tick\<close> the order is still PENDING in the registry, and
  the limit-up queue of the symbol, empty before, holds no order.
\<close>

theorem price_limit_order_not_queued_counterexample:
  "map_of (x_orders exch_buy_12) ''ORDER_1_000001_1'' = Some buy_12_placed
   \<and> o_status buy_12_placed = PENDING \<and> o_side buy_12_placed = BUY
   \<and> o_symbol buy_12_placed = k_symbol tick_limit_up
   \<and> fst (try_match_order (x_matcher exch_buy_12) buy_12_placed tick_limit_up True)
       = MatchResult_fail ''Price at limit up''
   \<and> map_of (x_orders (fst (host_on_tick_with try_match_order tick_limit_up
                               (exch_buy_12, LimitQueue_new))))
        ''ORDER_1_000001_1'' = Some buy_12_placed
   \<and> get_limit_up_queue_size ''000001''
        (snd (host_on_tick_with try_match_order tick_limit_up (exch_buy_12, LimitQueue_new)))
       = 0"
  by (simp add: exch_buy_12_eq buy_12_def buy_12_placed_def tick_limit_up_def input_defs
      exchange_defs matcher_defs Let_def host_on_tick_with_def LimitQueue_new_def
      get_limit_up_queue_size_def update_position_price_def)

text \<open>
  Claim C2, amended. During \<^verbatim>\<open>on_tick\<close>, with either matcher, an order of the registry
  for which the matcher returns a non-success whose reason begins with "Price at limit"
  is left in the registry exactly as it was, so a PENDING order stays PENDING; it is not
  inserted into a limit queue: a limit queue beside the exchange is unchanged by the call.
\<close>

theorem price_limit_order_stays_pending:
  assumes "map_of (x_orders x) oid = Some ord" and "o_status ord = PENDING"
    and "at_price_limit mf ord tick"
  shows "map_of (x_orders (fst (host_on_tick_with mf tick (x, lq)))) oid = Some ord
         \<and> snd (host_on_tick_with mf tick (x, lq)) = lq"
  using assms by (simp add: host_on_tick_with_def on_tick_with_parked_order)

theorem price_limit_order_stays_pending_witness:
  "map_of (x_orders (fst (host_on_tick_with try_match_order tick_limit_up (exch_buy_12, lq_two))))
     ''ORDER_1_000001_1'' = Some buy_12_placed
   \<and> o_status buy_12_placed = PENDING
   \<and> snd (host_on_tick_with try_match_order tick_limit_up (exch_buy_12, lq_two)) = lq_two
   \<and> map_of (x_orders (fst (host_on_tick_with try_match_order_lot tick_limit_up
                               (exch_buy_12, lq_two))))
     ''ORDER_1_000001_1'' = Some buy_12_placed"
proof -
  have m: "map_of (x_orders exch_buy_12) ''ORDER_1_000001_1'' = Some buy_12_placed"
    by (simp add: exch_buy_12_eq)
  have p: "o_status buy_12_placed = PENDING"
    by (simp add: buy_12_placed_def buy_12_def SimulatedOrder_new_def)
  from price_limit_order_stays_pending [OF m p buy_12_at_price_limit(1), of lq_two]
    price_limit_order_stays_pending [OF m p buy_12_at_price_limit(2), of lq_two] p
  show ?thesis
    by simp
qed

subsection \<open>Frozen shares and pending sell orders\<close>

lemma frozen_by_orders_update_Some:
  "map_of os k = Some old \<Longrightarrow>
     frozen_by_orders s (AList.update k new os)
       = frozen_by_orders s os - pending_sell s old + pending_sell s new"
  by (induction os) (auto simp: frozen_by_orders_def)

lemma frozen_by_orders_update_None:
  "map_of os k = None \<Longrightarrow>
     frozen_by_orders s (AList.update k new os) = frozen_by_orders s os + pending_sell s new"
  by (induction os) (auto simp: frozen_by_orders_def)

lemma set_update_cases:
  "e \<in> set (AList.update k new os) \<Longrightarrow> e = (k, new) \<or> e \<in> set os"
  by (induction os) (auto split: if_splits)

lemma volumes_ok_update:
  "volumes_ok os \<Longrightarrow> (o_status new = PENDING \<longrightarrow> 0 < o_volume new) \<Longrightarrow>
     volumes_ok (AList.update k new os)"
  unfolding volumes_ok_def using set_update_cases by fastforce

lemma pending_sell_nonneg:
  "volumes_ok os \<Longrightarrow> e \<in> set os \<Longrightarrow> 0 \<le> pending_sell s (snd e)"
  by (auto simp: volumes_ok_def pending_sell_def)

lemma frozen_by_orders_nonneg: "volumes_ok os \<Longrightarrow> 0 \<le> frozen_by_orders s os"
  unfolding frozen_by_orders_def
  by (rule sum_list_nonneg) (auto dest: pending_sell_nonneg)

lemma pending_sell_le_frozen:
  "volumes_ok os \<Longrightarrow> map_of os k = Some ord \<Longrightarrow> pending_sell s ord \<le> frozen_by_orders s os"
proof (induction os)
  case Nil
  then show ?case by simp
next
  case (Cons e os)
  have tl: "volumes_ok os"
    using Cons.prems(1) by (simp add: volumes_ok_def)
  have hd: "0 \<le> pending_sell s (snd e)"
    using Cons.prems(1) by (simp add: pending_sell_nonneg)
  show ?case
  proof (cases "fst e = k")
    case True
    with Cons.prems(2) have "snd e = ord"
      by (cases e) simp
    with frozen_by_orders_nonneg [OF tl, of s] show ?thesis
      by (simp add: frozen_by_orders_def)
  next
    case False
    with Cons.prems(2) have "map_of os k = Some ord"
      by (cases e) simp
    with Cons.IH tl have "pending_sell s ord \<le> frozen_by_orders s os"
      by simp
    with hd show ?thesis
      by (simp add: frozen_by_orders_def)
  qed
qed

lemma slot_ok_less:
  "slot_ok n slot \<Longrightarrow> 0 \<le> n' \<Longrightarrow> n' \<le> n \<Longrightarrow> slot_ok n' slot"
  by (auto simp: slot_ok_def split: option.splits)

text \<open>
  Writing an order into the registry while the position map changes: it is enough that
  each slot is right for the count before, less the old entry's share, plus the new one's.
\<close>

lemma book_ok_update:
  assumes "book_ok os ps"
    and "o_status new = PENDING \<longrightarrow> 0 < o_volume new"
    and "\<And>s. slot_ok (frozen_by_orders s os
                  - (case map_of os k of None \<Rightarrow> 0 | Some old \<Rightarrow> pending_sell s old)
                  + pending_sell s new) (ps' s)"
  shows "book_ok (AList.update k new os) ps'"
proof -
  from assms(1,2) have v: "volumes_ok (AList.update k new os)"
    by (simp add: book_ok_def volumes_ok_update)
  have "frozen_by_orders s (AList.update k new os)
          = frozen_by_orders s os
            - (case map_of os k of None \<Rightarrow> 0 | Some old \<Rightarrow> pending_sell s old)
            + pending_sell s new" for s
    by (cases "map_of os k")
      (simp_all add: frozen_by_orders_update_None frozen_by_orders_update_Some)
  with assms(3) v show ?thesis
    by (simp add: book_ok_def)
qed

subsection \<open>Ledger operations on one slot of the position map\<close>

lemma add_position_slot:
  "slot_ok n (a_positions a s) \<Longrightarrow> slot_ok n (a_positions (snd (add_position smb v p d a)) s)"
  by (auto simp: add_position_def slot_ok_def Position_new_def Let_def split: option.splits)

lemma update_position_price_slot:
  "slot_ok n (a_positions a s) \<Longrightarrow> slot_ok n (a_positions (update_position_price smb p a) s)"
  by (auto simp: update_position_price_def slot_ok_def Let_def split: option.splits)

lemma unlock_position_slot:
  "slot_ok n slot \<Longrightarrow> slot_ok n (map_option (unlock_position d) slot)"
  by (auto simp: unlock_position_def slot_ok_def split: option.splits)

lemma unfreeze_position_slot:
  assumes "slot_ok n (a_positions a s)" and "0 < v" and "s = smb \<longrightarrow> v \<le> n"
  shows "slot_ok (if s = smb then n - v else n) (a_positions (unfreeze_position smb v a) s)"
  using assms by (auto simp: unfreeze_position_def slot_ok_def split: option.splits)

lemma freeze_position_slot:
  assumes "slot_ok n (a_positions a s)" and "freeze_position smb v a = (True, a')"
  shows "slot_ok (if s = smb then n + v else n) (a_positions a' s)"
  using assms
  by (auto simp: freeze_position_def slot_ok_def split: option.splits if_splits)

lemma sell_slot:
  assumes "slot_ok n (a_positions a s)" and "reduce_position smb v p a = Some (pnl, a1)"
    and "a_positions a3 = a_positions a1" and "s = smb \<longrightarrow> v \<le> n"
  shows "slot_ok (if s = smb then n - v else n) (a_positions (unfreeze_position smb v a3) s)"
proof -
  from assms(2) have v: "0 < v"
    by (auto simp: reduce_position_def split: if_splits)
  from assms(2) obtain pos where pos: "a_positions a smb = Some pos" and le: "v \<le> p_volume pos"
    by (auto simp: reduce_position_def split: if_splits option.splits)
  show ?thesis
  proof (cases "s = smb")
    case False
    with assms(2) have "a_positions a1 s = a_positions a s"
      by (auto simp: reduce_position_def Let_def split: if_splits option.splits)
    with False assms(1,3) v show ?thesis
      by (simp add: unfreeze_position_def split: option.splits)
  next
    case True
    show ?thesis
    proof (cases "p_volume pos = v")
      case sold: True
      with assms(2) pos have "a_positions a1 smb = None"
        by (auto simp: reduce_position_def Let_def split: if_splits)
      moreover from assms(1,4) True pos sold have "n - v = 0"
        by (simp add: slot_ok_def)
      ultimately show ?thesis
        using True assms(3) by (simp add: unfreeze_position_def slot_ok_def)
    next
      case False
      with assms(2) pos le v have "a_positions a1 smb =
        Some (pos\<lparr>p_volume := p_volume pos - v,
                  p_available_volume := max 0 (p_available_volume pos - v),
                  p_market_value :=
                    round_to_cent (of_int (p_volume pos - v) * p_current_price pos),
                  p_unrealized_pnl :=
                    round_to_cent (round_to_cent (of_int (p_volume pos - v) * p_current_price pos)
                      - of_int (p_volume pos - v) * p_avg_cost pos)\<rparr>)"
        by (auto simp: reduce_position_def Let_def split: if_splits)
      with True False assms(1,3,4) pos le v show ?thesis
        by (simp add: unfreeze_position_def slot_ok_def)
    qed
  qed
qed

subsection \<open>The exchange keeps registry and positions together\<close>

lemma positions_ok_frame [simp]:
  "positions_ok (x\<lparr>x_matcher := mt\<rparr>) = positions_ok x"
  "positions_ok (x\<lparr>x_current_time := ct\<rparr>) = positions_ok x"
  "positions_ok (x\<lparr>x_order_counter := c\<rparr>) = positions_ok x"
  "positions_ok (x\<lparr>x_trade_history := th\<rparr>) = positions_ok x"
  by (simp_all add: positions_ok_def)

lemma release_order_book_ok:
  assumes "book_ok os ps" and "map_of os oid = Some ord" and "o_status ord = PENDING"
    and "o_status new \<noteq> PENDING" and "a_positions a = ps"
  shows "book_ok (AList.update oid new os) (a_positions (release_order ord a))"
proof (rule book_ok_update [OF assms(1)])
  from assms(4) show "o_status new = PENDING \<longrightarrow> 0 < o_volume new"
    by simp
next
  fix s
  from assms(1) have vol: "volumes_ok os" and slot: "slot_ok (frozen_by_orders s os) (ps s)"
    by (simp_all add: book_ok_def)
  from assms(2) have "(oid, ord) \<in> set os"
    by (rule map_of_SomeD)
  with vol assms(3) have pos: "0 < o_volume ord"
    by (auto simp: volumes_ok_def)
  have new: "pending_sell s new = 0"
    using assms(4) by (simp add: pending_sell_def)
  show "slot_ok (frozen_by_orders s os
                  - (case map_of os oid of None \<Rightarrow> 0 | Some old \<Rightarrow> pending_sell s old)
                  + pending_sell s new) (a_positions (release_order ord a) s)"
  proof (cases "o_side ord")
    case BUY
    with slot assms(2,5) new show ?thesis
      by (simp add: release_order_def pending_sell_def)
  next
    case SELL
    from vol assms(2) have "pending_sell s ord \<le> frozen_by_orders s os"
      by (rule pending_sell_le_frozen)
    with assms(3) SELL have "s = o_symbol ord \<longrightarrow> o_volume ord \<le> frozen_by_orders s os"
      by (auto simp: pending_sell_def)
    with slot assms(5) pos
    have "slot_ok (if s = o_symbol ord then frozen_by_orders s os - o_volume ord
                   else frozen_by_orders s os)
            (a_positions (unfreeze_position (o_symbol ord) (o_volume ord) a) s)"
      by (intro unfreeze_position_slot) simp_all
    with SELL assms(2,3) new show ?thesis
      by (auto simp: release_order_def pending_sell_def)
  qed
qed

lemma process_reject_positions_ok:
  assumes "positions_ok x" and "map_of (x_orders x) oid = Some ord" and "o_status ord = PENDING"
  shows "positions_ok (process_reject oid ord x)"
  using release_order_book_ok [OF assms(1) [unfolded positions_ok_def] assms(2,3),
      of "ord\<lparr>o_status := REJECTED\<rparr>" "x_account x"]
  by (simp add: positions_ok_def process_reject_def set_order_def)

lemma cancel_order_positions_ok:
  assumes "positions_ok x"
  shows "positions_ok (snd (cancel_order oid now x))"
proof (cases "map_of (x_orders x) oid")
  case None
  with assms show ?thesis
    by (simp add: cancel_order_def)
next
  case (Some ord)
  show ?thesis
  proof (cases "o_status ord = PENDING")
    case False
    with Some assms show ?thesis
      by (simp add: cancel_order_def)
  next
    case True
    with Some
      release_order_book_ok [OF assms [unfolded positions_ok_def] Some True,
        of "ord\<lparr>o_status := CANCELLED, o_cancel_time := now\<rparr>" "x_account x"]
    show ?thesis
      by (simp add: positions_ok_def cancel_order_def set_order_def)
  qed
qed

lemma record_fill_orders:
  "x_orders (record_fill oid ord res c pnl x)
     = AList.update oid (ord\<lparr>o_status := FILLED, o_filled_volume := m_filled_volume res,
                            o_filled_time := x_current_time x\<rparr>) (x_orders x)"
  by (simp add: record_fill_def set_order_def Let_def)

lemma process_fill_positions_ok:
  assumes "positions_ok x" and "map_of (x_orders x) oid = Some ord" and "o_status ord = PENDING"
    and "m_filled_volume res = o_volume ord"
  shows "positions_ok (process_fill oid ord res d x)"
proof (cases rule: process_fill_cases [of ord res x oid d])
  case (buy a2)
  let ?cost = "of_int (m_filled_volume res) * m_filled_price res
                 + calculate_commission BUY (m_filled_price res) (m_filled_volume res)"
  let ?a4 = "snd (add_position (o_symbol ord) (m_filled_volume res) (m_filled_price res) d
                (unfreeze_cash ?cost a2))"
  let ?new = "ord\<lparr>o_status := FILLED, o_filled_volume := m_filled_volume res,
                  o_filled_time := x_current_time x\<rparr>"
  from buy(2) have same: "a_positions (unfreeze_cash ?cost a2) = a_positions (x_account x)"
    by (simp add: freeze_cash_frame(2))
  have "book_ok (AList.update oid ?new (x_orders x)) (a_positions ?a4)"
  proof (rule book_ok_update [OF assms(1) [unfolded positions_ok_def]])
    show "o_status ?new = PENDING \<longrightarrow> 0 < o_volume ?new"
      by simp
  next
    fix s
    from assms(1) have "slot_ok (frozen_by_orders s (x_orders x)) (a_positions (x_account x) s)"
      by (simp add: positions_ok_def book_ok_def)
    with same have "slot_ok (frozen_by_orders s (x_orders x)) (a_positions ?a4 s)"
      by (simp add: add_position_slot)
    with buy(1) assms(2)
    show "slot_ok (frozen_by_orders s (x_orders x)
                  - (case map_of (x_orders x) oid of None \<Rightarrow> 0
                     | Some old \<Rightarrow> pending_sell s old)
                  + pending_sell s ?new) (a_positions ?a4 s)"
      by (simp add: pending_sell_def)
  qed
  with buy(3) show ?thesis
    by (simp add: positions_ok_def record_fill_orders)
next
  case buy_reject
  from assms have "positions_ok (process_reject oid ord
      (x\<lparr>x_account := unfreeze_cash (freeze_amount ord) (x_account x)\<rparr>))"
    by (intro process_reject_positions_ok) (simp_all add: positions_ok_def)
  with buy_reject show ?thesis
    by simp
next
  case (sell pnl a1)
  let ?c = "calculate_commission SELL (m_filled_price res) (m_filled_volume res)"
  let ?a3 = "unfreeze_cash ?c (snd (freeze_cash ?c a1))"
  let ?a4 = "unfreeze_position (o_symbol ord) (m_filled_volume res) ?a3"
  let ?new = "ord\<lparr>o_status := FILLED, o_filled_volume := m_filled_volume res,
                  o_filled_time := x_current_time x\<rparr>"
  have same: "a_positions ?a3 = a_positions a1"
    by simp
  from assms(1) have vol: "volumes_ok (x_orders x)"
    by (simp add: positions_ok_def book_ok_def)
  have "book_ok (AList.update oid ?new (x_orders x)) (a_positions ?a4)"
  proof (rule book_ok_update [OF assms(1) [unfolded positions_ok_def]])
    show "o_status ?new = PENDING \<longrightarrow> 0 < o_volume ?new"
      by simp
  next
    fix s
    let ?n = "frozen_by_orders s (x_orders x)"
    from assms(1) have slot: "slot_ok ?n (a_positions (x_account x) s)"
      by (simp add: positions_ok_def book_ok_def)
    from vol assms(2) have "pending_sell s ord \<le> ?n"
      by (rule pending_sell_le_frozen)
    with assms(3,4) sell(1) have "s = o_symbol ord \<longrightarrow> m_filled_volume res \<le> ?n"
      by (auto simp: pending_sell_def)
    with slot sell(2) same
    have "slot_ok (if s = o_symbol ord then ?n - m_filled_volume res else ?n)
            (a_positions ?a4 s)"
      by (intro sell_slot) simp_all
    with sell(1) assms(2,3,4)
    show "slot_ok (?n - (case map_of (x_orders x) oid of None \<Rightarrow> 0
                         | Some old \<Rightarrow> pending_sell s old)
                  + pending_sell s ?new) (a_positions ?a4 s)"
      by (auto simp: pending_sell_def)
  qed
  with sell(3) show ?thesis
    by (simp add: positions_ok_def record_fill_orders)
next
  case sell_reject
  with assms show ?thesis
    by (simp add: process_reject_positions_ok)
qed

lemma match_step_positions_ok:
  assumes "fills_whole mf" and "positions_ok x"
  shows "positions_ok (match_step mf tick d oid x)"
proof (cases rule: match_step_cases [of mf tick d oid x])
  case skip
  with assms show ?thesis by simp
next
  case (wait mt')
  with assms show ?thesis by simp
next
  case (fill ord res mt')
  from assms(1) have "m_success (fst (mf (x_matcher x) ord tick True))
      \<longrightarrow> m_filled_volume (fst (mf (x_matcher x) ord tick True)) = o_volume ord"
    unfolding fills_whole_def by blast
  with fill(4,5) have "m_filled_volume res = o_volume ord"
    by simp
  with assms(2) fill(1,2) have "positions_ok (process_fill oid ord res d (x\<lparr>x_matcher := mt'\<rparr>))"
    by (intro process_fill_positions_ok) simp_all
  with fill(6) show ?thesis by simp
next
  case (reject ord mt')
  with assms(2) have "positions_ok (process_reject oid ord (x\<lparr>x_matcher := mt'\<rparr>))"
    by (intro process_reject_positions_ok) simp_all
  with reject(3) show ?thesis by simp
qed

lemma on_tick_with_positions_ok:
  assumes "fills_whole mf" and "positions_ok x"
  shows "positions_ok (on_tick_with mf tick x)"
proof -
  let ?x2 = "x\<lparr>x_current_time := k_timestamp tick,
               x_account := update_position_price (k_symbol tick) (k_last_price tick)
                              (x_account x)\<rparr>"
  have "positions_ok (fold (match_step mf tick d) ks y)" if "positions_ok y" for d ks y
    using match_step_positions_ok [OF assms(1)] that by (rule fold_invariant)
  moreover from assms(2) have "positions_ok ?x2"
    by (simp add: positions_ok_def book_ok_def update_position_price_slot)
  ultimately show ?thesis
    by (simp add: on_tick_with_def Let_def)
qed

lemma submit_order_positions_ok:
  assumes "positions_ok x"
  shows "positions_ok (snd (submit_order ord now x))"
proof -
  from assms have vol: "volumes_ok (x_orders x)"
    by (simp add: positions_ok_def book_ok_def)
  have less: "slot_ok (frozen_by_orders s (x_orders x)
                 - (case map_of (x_orders x) oid of None \<Rightarrow> 0 | Some old \<Rightarrow> pending_sell s old)
                 + m) slot"
    if "slot_ok (frozen_by_orders s (x_orders x) + m) slot" and "0 \<le> m" for s oid m slot
  proof (cases "map_of (x_orders x) oid")
    case None
    with that show ?thesis by simp
  next
    case (Some old)
    from vol Some have "pending_sell s old \<le> frozen_by_orders s (x_orders x)"
      by (rule pending_sell_le_frozen)
    moreover from Some have "(oid, old) \<in> set (x_orders x)"
      by (rule map_of_SomeD)
    with vol have "0 \<le> pending_sell s (snd (oid, old))"
      by (rule pending_sell_nonneg)
    ultimately have "0 \<le> frozen_by_orders s (x_orders x) - pending_sell s old + m"
      and "frozen_by_orders s (x_orders x) - pending_sell s old + m
             \<le> frozen_by_orders s (x_orders x) + m"
      using that(2) by simp_all
    with that(1) have "slot_ok (frozen_by_orders s (x_orders x) - pending_sell s old + m) slot"
      by (rule slot_ok_less)
    with Some show ?thesis
      by simp
  qed
  show ?thesis
  proof (cases rule: submit_order_cases [of ord now x])
    case (rejected oid ord')
    have "book_ok (AList.update oid ord' (x_orders x)) (a_positions (x_account x))"
    proof (rule book_ok_update [OF assms [unfolded positions_ok_def]])
      from rejected(1) show "o_status ord' = PENDING \<longrightarrow> 0 < o_volume ord'"
        by simp
    next
      fix s
      from assms have "slot_ok (frozen_by_orders s (x_orders x) + 0) (a_positions (x_account x) s)"
        by (simp add: positions_ok_def book_ok_def)
      then have "slot_ok (frozen_by_orders s (x_orders x)
                 - (case map_of (x_orders x) oid of None \<Rightarrow> 0 | Some old \<Rightarrow> pending_sell s old)
                 + 0) (a_positions (x_account x) s)"
        by (rule less) simp
      with rejected(1)
      show "slot_ok (frozen_by_orders s (x_orders x)
                 - (case map_of (x_orders x) oid of None \<Rightarrow> 0 | Some old \<Rightarrow> pending_sell s old)
                 + pending_sell s ord') (a_positions (x_account x) s)"
        by (simp add: pending_sell_def)
    qed
    with rejected(2) show ?thesis
      by (simp add: positions_ok_def set_order_def)
  next
    case (buy oid ord' a')
    from buy(4) have same: "a_positions a' = a_positions (x_account x)"
      by (rule freeze_cash_frame(2))
    have "book_ok (AList.update oid ord' (x_orders x)) (a_positions a')"
    proof (rule book_ok_update [OF assms [unfolded positions_ok_def]])
      from buy(3) show "o_status ord' = PENDING \<longrightarrow> 0 < o_volume ord'"
        by simp
    next
      fix s
      from assms same have "slot_ok (frozen_by_orders s (x_orders x) + 0) (a_positions a' s)"
        by (simp add: positions_ok_def book_ok_def)
      then have "slot_ok (frozen_by_orders s (x_orders x)
                 - (case map_of (x_orders x) oid of None \<Rightarrow> 0 | Some old \<Rightarrow> pending_sell s old)
                 + 0) (a_positions a' s)"
        by (rule less) simp
      with buy(1)
      show "slot_ok (frozen_by_orders s (x_orders x)
                 - (case map_of (x_orders x) oid of None \<Rightarrow> 0 | Some old \<Rightarrow> pending_sell s old)
                 + pending_sell s ord') (a_positions a' s)"
        by (simp add: pending_sell_def)
    qed
    with buy(5) show ?thesis
      by (simp add: positions_ok_def set_order_def)
  next
    case (sell oid ord' a')
    have "book_ok (AList.update oid ord' (x_orders x)) (a_positions a')"
    proof (rule book_ok_update [OF assms [unfolded positions_ok_def]])
      from sell(3) show "o_status ord' = PENDING \<longrightarrow> 0 < o_volume ord'"
        by simp
    next
      fix s
      from assms have "slot_ok (frozen_by_orders s (x_orders x)) (a_positions (x_account x) s)"
        by (simp add: positions_ok_def book_ok_def)
      from freeze_position_slot [OF this sell(4)] sell(1,2)
      have "slot_ok (frozen_by_orders s (x_orders x) + pending_sell s ord') (a_positions a' s)"
        by (auto simp: pending_sell_def)
      moreover from sell(3) have "0 \<le> pending_sell s ord'"
        by (simp add: pending_sell_def)
      ultimately
      show "slot_ok (frozen_by_orders s (x_orders x)
                 - (case map_of (x_orders x) oid of None \<Rightarrow> 0 | Some old \<Rightarrow> pending_sell s old)
                 + pending_sell s ord') (a_positions a' s)"
        by (rule less)
    qed
    with sell(5) show ?thesis
      by (simp add: positions_ok_def set_order_def)
  qed
qed

lemma unlock_positions_ok:
  assumes "positions_ok x"
  shows "positions_ok (update_daily d x)" and "positions_ok (exchange_daily_settlement d x)"
  using assms
  by (simp_all add: positions_ok_def book_ok_def update_daily_def update_available_volume_def
      exchange_daily_settlement_def daily_settlement_def unlock_position_slot)

lemma call_positions_ok:
  "fills_whole mf \<Longrightarrow> positions_ok x \<Longrightarrow> positions_ok (call mf c x)"
  by (cases c)
    (simp_all add: submit_order_positions_ok on_tick_with_positions_ok
      cancel_order_positions_ok unlock_positions_ok)

lemma run_calls_positions_ok:
  assumes "fills_whole mf" and "SimulatedExchange_new aid capital seed = Some x0"
  shows "positions_ok (run_calls mf cs x0)"
proof -
  from assms(2) have "positions_ok x0"
    by (simp add: positions_ok_def book_ok_def volumes_ok_def slot_ok_def frozen_by_orders_def
        SimulatedExchange_new_Some)
  with call_positions_ok [OF assms(1)] show ?thesis
    unfolding run_calls_def by (rule fold_invariant)
qed

lemma match_price_fills_whole:
  assumes "m_success (fst (match_price up down mt ord tick c))"
  shows "m_filled_volume (fst (match_price up down mt ord tick c)) = o_volume ord"
proof (cases "base_price_of ord tick")
  case (Inl reason)
  with assms show ?thesis
    by (simp add: match_price_def MatchResult_fail_def)
next
  case (Inr base)
  show ?thesis
  proof (cases "c \<and> k_last_close tick > 0
                  \<and> \<not> check_limit_price (o_symbol ord) base (k_last_close tick)")
    case True
    with Inr assms show ?thesis
      by (simp add: match_price_def MatchResult_fail_def)
  next
    case nolimit: False
    show ?thesis
    proof (cases "check_liquidity (o_volume ord) tick (o_side ord)")
      case False
      with assms show ?thesis
        by (simp add: match_price_def MatchResult_fail_def Inr nolimit)
    next
      case True
      obtain p mt2 where "calculate_slippage (o_side ord) base (o_volume ord)
          (if o_slippage_rate ord > 0 then o_slippage_rate ord else om_default_slippage_rate mt)
          mt = (p, mt2)"
        using calculate_slippage_pair by blast
      then show ?thesis
        by (simp add: match_price_def MatchResult_ok_def Let_def Inr nolimit True)
    qed
  qed
qed

lemma try_match_order_fills_whole:
  assumes "m_success (fst (try_match_order mt ord tick c))"
  shows "m_filled_volume (fst (try_match_order mt ord tick c)) = o_volume ord"
proof (cases "o_volume ord \<le> 0")
  case True
  with assms show ?thesis
    by (simp add: try_match_order_def MatchResult_fail_def)
next
  case False
  with assms
    match_price_fills_whole [of "''Price at limit up''" "''Price at limit down''" mt ord tick c]
  show ?thesis
    by (simp add: try_match_order_def)
qed

lemma try_match_order_lot_fills_whole:
  assumes "m_success (fst (try_match_order_lot mt ord tick c))"
  shows "m_filled_volume (fst (try_match_order_lot mt ord tick c)) = o_volume ord"
proof -
  obtain b msg where v: "validate_order_volume (o_volume ord) (o_side ord) 0 = (b, msg)"
    by (cases "validate_order_volume (o_volume ord) (o_side ord) 0")
  show ?thesis
  proof (cases b)
    case False
    with v assms show ?thesis
      by (simp add: try_match_order_lot_def MatchResult_fail_def)
  next
    case True
    with v assms match_price_fills_whole
      [of "''Price at limit up - queuing''" "''Price at limit down - queuing''" mt ord tick c]
    show ?thesis
      by (simp add: try_match_order_lot_def)
  qed
qed

lemma fills_whole_matchers: "fills_whole try_match_order" "fills_whole try_match_order_lot"
  unfolding fills_whole_def
  using try_match_order_fills_whole try_match_order_lot_fills_whole by blast+

subsection \<open>Direct ledger calls\<close>

lemma ledger_slot_ok_ops:
  assumes "ledger_slot_ok (a_positions a s)"
  shows "ledger_slot_ok (a_positions (snd (add_position smb v p d a)) s)"
    and "ledger_slot_ok (a_positions (update_position_price smb p a) s)"
    and "ledger_slot_ok (a_positions (snd (freeze_position smb v a)) s)"
    and "ledger_slot_ok (a_positions (unfreeze_position smb v a) s)"
    and "ledger_slot_ok (map_option (unlock_position d) (a_positions a s))"
  using assms
  by (auto simp: ledger_slot_ok_def add_position_def update_position_price_def
      freeze_position_def unfreeze_position_def unlock_position_def Position_new_def Let_def
      split: option.splits if_splits)

lemma ledger_slot_ok_reduce:
  assumes "ledger_slot_ok (a_positions a s)" and "reduce_position smb v p a = Some (pnl, a')"
  shows "ledger_slot_ok (a_positions a' s)"
  using assms
  by (auto simp: ledger_slot_ok_def reduce_position_def Let_def split: option.splits if_splits)

lemma ledger_call_ok:
  assumes "ledger_ok a"
  shows "ledger_ok (ledger_call c a)"
proof (cases c)
  case (ReducePosition smb v p)
  show ?thesis
  proof (cases "reduce_position smb v p a")
    case None
    with ReducePosition assms show ?thesis by simp
  next
    case (Some r)
    obtain pnl a' where "r = (pnl, a')" by (cases r)
    with Some ReducePosition assms show ?thesis
      using ledger_slot_ok_reduce [of a _ smb v p pnl a'] by (simp add: ledger_ok_def)
  qed
qed (use assms in \<open>simp_all add: ledger_ok_def ledger_slot_ok_ops update_available_volume_def
      daily_settlement_def\<close>)

lemma run_ledger_ok:
  assumes "SimulationAccount_new aid capital = Some a0"
  shows "ledger_ok (run_ledger ls a0)"
proof -
  from assms have "a_positions a0 = Map.empty"
    by (auto simp: SimulationAccount_new_def split: if_splits)
  then have "ledger_ok a0"
    by (simp add: ledger_ok_def ledger_slot_ok_def)
  with ledger_call_ok show ?thesis
    unfolding run_ledger_def by (rule fold_invariant)
qed

subsection \<open>Bounds on frozen and available volume\<close>

lemmas ledger_defs = update_available_volume_def unlock_position_def daily_settlement_def
  update_daily_def

lemma position_bounds_evaluated:
  "a_positions (x_account exch_sell_pending) ''000001'' \<noteq> None
   \<and> p_volume (the (a_positions (x_account exch_sell_pending) ''000001'')) = 100
   \<and> p_frozen_volume (the (a_positions (x_account exch_sell_pending) ''000001'')) = 100
   \<and> p_available_volume (the (a_positions (x_account exch_sell_pending) ''000001'')) = 100
   \<and> \<not> p_available_volume (the (a_positions (x_account exch_sell_pending) ''000001''))
         \<le> p_volume (the (a_positions (x_account exch_sell_pending) ''000001''))
            - p_frozen_volume (the (a_positions (x_account exch_sell_pending) ''000001''))
   \<and> a_positions acct_reduced ''600000'' \<noteq> None
   \<and> p_volume (the (a_positions acct_reduced ''600000'')) = 50
   \<and> p_frozen_volume (the (a_positions acct_reduced ''600000'')) = 100
   \<and> \<not> p_frozen_volume (the (a_positions acct_reduced ''600000''))
         \<le> p_volume (the (a_positions acct_reduced ''600000''))
   \<and> p_available_volume (the (a_positions acct_reduced_settled ''600000'')) = - 50"
  by (simp add: exch_sell_pending_def calls_buy_then_sell_def run_calls_def sell_100_def
      acct_reduced_def acct_reduced_settled_def ledger_calls_reduce_def run_ledger_def
      input_defs exchange_defs account_defs money_defs matcher_defs ledger_defs Let_def)

text \<open>
  Claim C4, as stated, fails in two places. Through the exchange: \<^verbatim>\<open>freeze_position\<close>
  raises \<open>frozen_volume\<close> and leaves \<open>available_volume\<close>, so once a sell order for 100
  unlocked shares is pending the position has volume 100, frozen 100 and available 100,
  more than \<open>volume - frozen_volume = 0\<close>. On the ledger alone: \<^verbatim>\<open>reduce_position\<close>
  lowers the volume and leaves \<open>frozen_volume\<close>, so 100 frozen shares of which 50 are sold
  by a direct call leave volume 50 under frozen 100, and the next settlement makes
  \<open>available_volume\<close> negative.
\<close>

theorem position_bounds_counterexample:
  "a_positions (x_account exch_sell_pending) ''000001'' \<noteq> None
   \<and> p_volume (the (a_positions (x_account exch_sell_pending) ''000001'')) = 100
   \<and> p_frozen_volume (the (a_positions (x_account exch_sell_pending) ''000001'')) = 100
   \<and> p_available_volume (the (a_positions (x_account exch_sell_pending) ''000001'')) = 100
   \<and> \<not> p_available_volume (the (a_positions (x_account exch_sell_pending) ''000001''))
         \<le> p_volume (the (a_positions (x_account exch_sell_pending) ''000001''))
            - p_frozen_volume (the (a_positions (x_account exch_sell_pending) ''000001''))
   \<and> a_positions acct_reduced ''600000'' \<noteq> None
   \<and> p_volume (the (a_positions acct_reduced ''600000'')) = 50
   \<and> p_frozen_volume (the (a_positions acct_reduced ''600000'')) = 100
   \<and> \<not> p_frozen_volume (the (a_positions acct_reduced ''600000''))
         \<le> p_volume (the (a_positions acct_reduced ''600000''))
   \<and> p_available_volume (the (a_positions acct_reduced_settled ''600000'')) = - 50"
  using position_bounds_evaluated by simp

text \<open>
  Claim C4, amended. After any run of the exchange's public calls (\<^verbatim>\<open>submit_order\<close>,
  \<^verbatim>\<open>on_tick\<close>, \<^verbatim>\<open>cancel_order\<close>, \<^verbatim>\<open>update_daily\<close>, daily settlement) from its construction,
  with a matcher that fills in full or not at all, every position of the account has
  \<open>0 \<le> frozen_volume \<le> volume\<close> and \<open>0 \<le> available_volume \<le> volume\<close>. After any run of
  ledger operations called directly on a new account, every position has
  \<open>0 \<le> frozen_volume\<close> and \<open>available_volume \<le> volume\<close>.
\<close>

theorem position_bounds:
  "(fills_whole mf \<and> SimulatedExchange_new aid capital seed = Some x0
      \<and> a_positions (x_account (run_calls mf cs x0)) s = Some p
     \<longrightarrow> 0 \<le> p_frozen_volume p \<and> p_frozen_volume p \<le> p_volume p
         \<and> 0 \<le> p_available_volume p \<and> p_available_volume p \<le> p_volume p)
   \<and> (SimulationAccount_new aid capital = Some a0 \<and> a_positions (run_ledger ls a0) s = Some q
     \<longrightarrow> 0 \<le> p_frozen_volume q \<and> p_available_volume q \<le> p_volume q)"
proof (intro conjI impI)
  assume a: "fills_whole mf \<and> SimulatedExchange_new aid capital seed = Some x0
      \<and> a_positions (x_account (run_calls mf cs x0)) s = Some p"
  then have "positions_ok (run_calls mf cs x0)"
    using run_calls_positions_ok by blast
  then have "slot_ok (frozen_by_orders s (x_orders (run_calls mf cs x0)))
               (a_positions (x_account (run_calls mf cs x0)) s)"
    by (simp add: positions_ok_def book_ok_def)
  with a have ok: "slot_ok (frozen_by_orders s (x_orders (run_calls mf cs x0))) (Some p)"
    by simp
  from ok show "0 \<le> p_frozen_volume p" by (simp add: slot_ok_def)
  from ok show "p_frozen_volume p \<le> p_volume p" by (simp add: slot_ok_def)
  from ok show "0 \<le> p_available_volume p" by (simp add: slot_ok_def)
  from ok show "p_available_volume p \<le> p_volume p" by (simp add: slot_ok_def)
next
  assume a: "SimulationAccount_new aid capital = Some a0
      \<and> a_positions (run_ledger ls a0) s = Some q"
  then have "ledger_ok (run_ledger ls a0)"
    using run_ledger_ok by blast
  with a have ok: "ledger_slot_ok (Some q)"
    unfolding ledger_ok_def by metis
  from ok show "0 \<le> p_frozen_volume q" by (simp add: ledger_slot_ok_def)
  from ok show "p_available_volume q \<le> p_volume q" by (simp add: ledger_slot_ok_def)
qed

theorem position_bounds_witness:
  "fills_whole try_match_order
   \<and> SimulatedExchange_new ''ACC'' 100000 zero_rng = Some (exch_fresh 100000)
   \<and> a_positions (x_account exch_sell_pending) ''000001''
       = Some (the (a_positions (x_account exch_sell_pending) ''000001''))
   \<and> p_frozen_volume (the (a_positions (x_account exch_sell_pending) ''000001''))
       \<le> p_volume (the (a_positions (x_account exch_sell_pending) ''000001''))
   \<and> p_available_volume (the (a_positions (x_account exch_sell_pending) ''000001''))
       \<le> p_volume (the (a_positions (x_account exch_sell_pending) ''000001''))
   \<and> SimulationAccount_new ''ACC'' 100000 = Some (x_account (exch_fresh 100000))
   \<and> a_positions acct_reduced ''600000'' = Some (the (a_positions acct_reduced ''600000''))
   \<and> 0 \<le> p_frozen_volume (the (a_positions acct_reduced ''600000''))
   \<and> p_available_volume (the (a_positions acct_reduced ''600000''))
       \<le> p_volume (the (a_positions acct_reduced ''600000''))"
proof -
  let ?p = "the (a_positions (x_account exch_sell_pending) ''000001'')"
  let ?q = "the (a_positions acct_reduced ''600000'')"
  have new: "SimulatedExchange_new ''ACC'' 100000 zero_rng = Some (exch_fresh 100000)"
    by (simp add: exch_fresh_new)
  have newa: "SimulationAccount_new ''ACC'' 100000 = Some (x_account (exch_fresh 100000))"
    by (simp add: SimulationAccount_new_def exch_fresh_def)
  have "a_positions (x_account exch_sell_pending) ''000001'' \<noteq> None"
    and "a_positions acct_reduced ''600000'' \<noteq> None"
    using position_bounds_evaluated by simp_all
  then have p: "a_positions (x_account (run_calls try_match_order calls_buy_then_sell
                   (exch_fresh 100000))) ''000001'' = Some ?p"
    and q: "a_positions (run_ledger ledger_calls_reduce (x_account (exch_fresh 100000)))
              ''600000'' = Some ?q"
    by (simp_all add: exch_sell_pending_def acct_reduced_def)
  from position_bounds [of try_match_order "''ACC''" 100000 zero_rng "exch_fresh 100000"
      calls_buy_then_sell "''000001''" ?p "x_account (exch_fresh 100000)" ledger_calls_reduce
      ?q]
    fills_whole_matchers(1) new p
  have 1: "p_frozen_volume ?p \<le> p_volume ?p \<and> p_available_volume ?p \<le> p_volume ?p"
    by blast
  from position_bounds [of try_match_order "''ACC''" 100000 zero_rng "exch_fresh 100000"
      calls_buy_then_sell "''600000''" ?p "x_account (exch_fresh 100000)" ledger_calls_reduce
      ?q] newa q
  have 2: "0 \<le> p_frozen_volume ?q \<and> p_available_volume ?q \<le> p_volume ?q"
    by blast
  from fills_whole_matchers(1) new newa p q 1 2 show ?thesis
    by (simp add: exch_sell_pending_def acct_reduced_def)
qed

subsection \<open>Order ids are not issued twice\<close>

lemma digit_cases:
  fixes d :: nat
  shows "d mod 10 = 0 \<or> d mod 10 = 1 \<or> d mod 10 = 2 \<or> d mod 10 = 3 \<or> d mod 10 = 4
      \<or> d mod 10 = 5 \<or> d mod 10 = 6 \<or> d mod 10 = 7 \<or> d mod 10 = 8 \<or> d mod 10 = 9"
  by presburger

lemma digit_char_not_underscore: "digit_char d \<noteq> CHR ''_''"
  using digit_cases [of d] unfolding digit_char_def by (elim disjE) simp_all

lemma digit_char_value: "of_char (digit_char d) = 48 + d mod 10"
  using digit_cases [of d] unfolding digit_char_def by (elim disjE) simp_all

lemma to_digits_no_underscore: "CHR ''_'' \<notin> set (to_digits n)"
proof (induction n rule: to_digits.induct)
  case (1 n)
  show ?case
  proof (cases "n < 10")
    case True
    then show ?thesis
      using digit_char_not_underscore [of n] by (subst to_digits.simps) auto
  next
    case False
    with 1 show ?thesis
      using digit_char_not_underscore [of n] by (subst to_digits.simps) auto
  qed
qed

text \<open>Reading a decimal numeral back.\<close>

lemma to_digits_value:
  "foldl (\<lambda>acc ch. 10 * acc + (of_char ch - 48)) 0 (to_digits n) = n"
proof (induction n rule: to_digits.induct)
  case (1 n)
  show ?case
  proof (cases "n < 10")
    case True
    then show ?thesis
      by (subst to_digits.simps) (simp add: digit_char_value)
  next
    case False
    with 1 have "foldl (\<lambda>acc ch. 10 * acc + (of_char ch - 48)) 0 (to_digits (n div 10))
                   = n div 10"
      by simp
    with False show ?thesis
      by (subst to_digits.simps) (simp add: digit_char_value)
  qed
qed

lemma to_digits_inject:
  assumes "to_digits m = to_digits n"
  shows "m = n"
proof -
  have "m = foldl (\<lambda>acc ch. 10 * acc + (of_char ch - 48)) 0 (to_digits m)"
    by (simp only: to_digits_value)
  also have "\<dots> = foldl (\<lambda>acc ch. 10 * acc + (of_char ch - 48)) 0 (to_digits n)"
    by (simp only: assms)
  also have "\<dots> = n"
    by (simp only: to_digits_value)
  finally show ?thesis .
qed

lemma takeWhile_to_underscore:
  "CHR ''_'' \<notin> set l \<Longrightarrow> takeWhile (\<lambda>c. c \<noteq> CHR ''_'') (l @ CHR ''_'' # r) = l"
  by (induction l) auto

lemma last_field_unique:
  assumes "xs @ CHR ''_'' # ds = ys @ CHR ''_'' # es"
    and "CHR ''_'' \<notin> set ds" and "CHR ''_'' \<notin> set es"
  shows "ds = es"
proof -
  have "takeWhile (\<lambda>c. c \<noteq> CHR ''_'') (rev (zs @ CHR ''_'' # fs)) = rev fs"
    if "CHR ''_'' \<notin> set fs" for zs fs
    using that takeWhile_to_underscore [of "rev fs" "rev zs"] by simp
  from this [OF assms(2), of xs] this [OF assms(3), of ys] assms(1) have "rev ds = rev es"
    by simp
  then show ?thesis
    by simp
qed

lemma order_id_counter_unique:
  assumes "pre @ ''_'' @ to_string c = pre' @ ''_'' @ to_string c'" and "0 \<le> c" and "0 \<le> c'"
  shows "c = c'"
proof -
  from assms have "pre @ CHR ''_'' # to_digits (nat c) = pre' @ CHR ''_'' # to_digits (nat c')"
    by (simp add: to_string_def)
  then have "to_digits (nat c) = to_digits (nat c')"
    by (rule last_field_unique) (simp_all add: to_digits_no_underscore)
  then have "nat c = nat c'"
    by (rule to_digits_inject)
  with assms(2,3) show ?thesis
    by simp
qed


lemma ids_issued_frame [simp]:
  "ids_issued (x\<lparr>x_account := a\<rparr>) = ids_issued x"
  "ids_issued (x\<lparr>x_matcher := mt\<rparr>) = ids_issued x"
  "ids_issued (x\<lparr>x_current_time := ct\<rparr>) = ids_issued x"
  "ids_issued (x\<lparr>x_trade_history := th\<rparr>) = ids_issued x"
  by (simp_all add: ids_issued_def)

lemma ids_issued_set_order:
  assumes "ids_issued x" and "map_of (x_orders x) oid = Some old"
  shows "ids_issued (set_order oid new x)"
proof -
  from assms(2) have "(oid, old) \<in> set (x_orders x)"
    by (rule map_of_SomeD)
  then have "oid \<in> fst ` set (x_orders x)"
    by force
  then have "fst ` set (x_orders (set_order oid new x)) = fst ` set (x_orders x)"
    by (auto simp: set_order_def dom_update)
  with assms(1) show ?thesis
    by (simp add: ids_issued_def set_order_def)
qed

lemma ids_issued_process_reject:
  "ids_issued x \<Longrightarrow> map_of (x_orders x) oid = Some ord \<Longrightarrow> ids_issued (process_reject oid ord x)"
  using ids_issued_set_order [of "x\<lparr>x_account := release_order ord (x_account x)\<rparr>" oid ord]
  by (simp add: process_reject_def)

lemma ids_issued_record_fill:
  assumes "ids_issued x" and "map_of (x_orders x) oid = Some ord"
  shows "ids_issued (record_fill oid ord' res c pnl x)"
  using ids_issued_set_order [OF assms] by (simp add: record_fill_def Let_def)

lemma ids_issued_process_fill:
  assumes "ids_issued x" and "map_of (x_orders x) oid = Some ord"
  shows "ids_issued (process_fill oid ord res d x)"
proof (cases rule: process_fill_cases [of ord res x oid d])
  case (buy a2)
  from buy(3) assms show ?thesis
    by (simp add: ids_issued_record_fill)
next
  case buy_reject
  with assms show ?thesis
    by (simp add: ids_issued_process_reject)
next
  case (sell pnl a1)
  from sell(3) assms show ?thesis
    by (simp add: ids_issued_record_fill)
next
  case sell_reject
  with assms show ?thesis
    by (simp add: ids_issued_process_reject)
qed

lemma ids_issued_match_step:
  assumes "ids_issued x"
  shows "ids_issued (match_step mf tick d oid x)"
proof (cases rule: match_step_cases [of mf tick d oid x])
  case skip
  with assms show ?thesis by simp
next
  case (wait mt')
  with assms show ?thesis by simp
next
  case (fill ord res mt')
  with assms show ?thesis
    by (simp add: ids_issued_process_fill)
next
  case (reject ord mt')
  with assms show ?thesis
    by (simp add: ids_issued_process_reject)
qed

lemma ids_issued_on_tick_with:
  assumes "ids_issued x"
  shows "ids_issued (on_tick_with mf tick x)"
proof -
  have "ids_issued (fold (match_step mf tick d) ks y)" if "ids_issued y" for d ks y
    using ids_issued_match_step that by (rule fold_invariant)
  with assms show ?thesis
    by (simp add: on_tick_with_def Let_def)
qed

lemma ids_issued_new_order:
  assumes "ids_issued x"
  shows "ids_issued (set_order (pre @ ''_'' @ to_string (x_order_counter x + 1)) new
           (x\<lparr>x_order_counter := x_order_counter x + 1\<rparr>))"
proof -
  let ?c = "x_order_counter x + 1"
  have "\<exists>pre' c. k = pre' @ ''_'' @ to_string c \<and> 0 \<le> c \<and> c \<le> ?c"
    if "k \<in> insert (pre @ ''_'' @ to_string ?c) (fst ` set (x_orders x))" for k
  proof (cases "k = pre @ ''_'' @ to_string ?c")
    case True
    with assms show ?thesis
      unfolding ids_issued_def by (intro exI [of _ pre] exI [of _ ?c]) simp
  next
    case False
    with that have "k \<in> fst ` set (x_orders x)"
      by simp
    with assms obtain pre' c where "k = pre' @ ''_'' @ to_string c" and "0 \<le> c"
        and "c \<le> x_order_counter x"
      unfolding ids_issued_def by blast
    then show ?thesis
      by (intro exI [of _ pre'] exI [of _ c]) simp
  qed
  with assms show ?thesis
    by (simp add: ids_issued_def set_order_def dom_update)
qed

lemma ids_issued_submit_order:
  assumes "ids_issued x"
  shows "ids_issued (snd (submit_order ord now x))"
proof -
  note new = ids_issued_new_order [OF assms, of "''ORDER_'' @ to_string now @ ''_'' @ o_symbol ord"]
  show ?thesis
  proof (cases rule: submit_order_cases [of ord now x])
    case (rejected oid ord')
    with new [of ord'] show ?thesis by simp
  next
    case (buy oid ord' a')
    then have "snd (submit_order ord now x)
        = (set_order oid ord' (x\<lparr>x_order_counter := x_order_counter x + 1\<rparr>))
            \<lparr>x_account := a'\<rparr>"
      by (simp add: set_order_def)
    with new [of ord'] buy(6) show ?thesis by simp
  next
    case (sell oid ord' a')
    then have "snd (submit_order ord now x)
        = (set_order oid ord' (x\<lparr>x_order_counter := x_order_counter x + 1\<rparr>))
            \<lparr>x_account := a'\<rparr>"
      by (simp add: set_order_def)
    with new [of ord'] sell(6) show ?thesis by simp
  qed
qed

lemma ids_issued_cancel_order:
  "ids_issued x \<Longrightarrow> ids_issued (snd (cancel_order oid now x))"
  using ids_issued_set_order [of "x\<lparr>x_account := release_order ord (x_account x)\<rparr>" oid ord for ord]
  by (auto simp: cancel_order_def split: option.splits)

lemma ids_issued_call: "ids_issued x \<Longrightarrow> ids_issued (call mf c x)"
  by (cases c)
    (simp_all add: ids_issued_submit_order ids_issued_on_tick_with ids_issued_cancel_order
      update_daily_def exchange_daily_settlement_def)

lemma ids_issued_run_calls:
  assumes "SimulatedExchange_new aid capital seed = Some x0"
  shows "ids_issued (run_calls mf cs x0)"
proof -
  from assms have "x_order_counter x0 = 0"
    by (auto simp: SimulatedExchange_new_def split: option.splits)
  with assms have "ids_issued x0"
    by (simp add: ids_issued_def SimulatedExchange_new_Some(1))
  with ids_issued_call show ?thesis
    unfolding run_calls_def by (rule fold_invariant)
qed

text \<open>The id that \<^verbatim>\<open>submit_order\<close> generates next is not a key of the registry.\<close>

lemma next_order_id_fresh:
  assumes "ids_issued x" and "map_of (x_orders x) oid = Some ord"
  shows "oid \<noteq> pre @ ''_'' @ to_string (x_order_counter x + 1)"
proof
  assume eq: "oid = pre @ ''_'' @ to_string (x_order_counter x + 1)"
  from assms(2) have "(oid, ord) \<in> set (x_orders x)"
    by (rule map_of_SomeD)
  then have "oid \<in> fst ` set (x_orders x)"
    by force
  with assms(1) obtain pre' c where "oid = pre' @ ''_'' @ to_string c" and "0 \<le> c"
      and le: "c \<le> x_order_counter x"
    unfolding ids_issued_def by blast
  with eq have "c = x_order_counter x + 1"
    by (intro order_id_counter_unique [of pre' c pre]) simp_all
  with le show False
    by simp
qed

subsection \<open>Settled orders stay as they are\<close>

lemma settled_order_kept_match_step:
  assumes "map_of (x_orders x) oid = Some ord" and "o_status ord \<noteq> PENDING"
  shows "map_of (x_orders (match_step mf tick d k x)) oid = Some ord"
proof (cases "k = oid")
  case True
  with assms show ?thesis
    by (simp add: match_step_def)
next
  case False
  then have "oid \<noteq> k" by simp
  with assms(1) show ?thesis
    by (simp add: match_step_other_order)
qed

lemma settled_order_kept_call:
  assumes "ids_issued x" and "map_of (x_orders x) oid = Some ord" and "o_status ord \<noteq> PENDING"
  shows "map_of (x_orders (call mf c x)) oid = Some ord"
proof (cases c)
  case (Submit new now)
  from assms(1,2)
  have fresh: "oid \<noteq> (''ORDER_'' @ to_string now @ ''_'' @ o_symbol new) @ ''_''
                        @ to_string (x_order_counter x + 1)"
    by (rule next_order_id_fresh)
  have "map_of (x_orders (snd (submit_order new now x))) oid = Some ord"
  proof (cases rule: submit_order_cases [of new now x])
    case (rejected k ord')
    with fresh assms(2) show ?thesis by simp
  next
    case (buy k ord' a')
    with fresh assms(2) show ?thesis by simp
  next
    case (sell k ord' a')
    with fresh assms(2) show ?thesis by simp
  qed
  with Submit show ?thesis by simp
next
  case (OnTick tick)
  have "map_of (x_orders (fold (match_step mf tick d) ks y)) oid = Some ord"
    if "map_of (x_orders y) oid = Some ord" for d ks y
    using _ that
    by (rule fold_invariant [where P = "\<lambda>y. map_of (x_orders y) oid = Some ord"])
      (simp add: settled_order_kept_match_step assms(3))
  with assms(2) OnTick show ?thesis
    by (simp add: on_tick_with_def Let_def)
next
  case (Cancel k now)
  with assms(2,3) show ?thesis
    by (auto simp: cancel_order_def split: option.splits)
next
  case (UpdateDaily d)
  with assms(2) show ?thesis by (simp add: update_daily_def)
next
  case (DailySettlement d)
  with assms(2) show ?thesis by (simp add: exchange_daily_settlement_def)
qed

lemma settled_order_kept_run:
  assumes "ids_issued x" and "map_of (x_orders x) oid = Some ord" and "o_status ord \<noteq> PENDING"
  shows "map_of (x_orders (run_calls mf cs x)) oid = Some ord"
proof -
  have "ids_issued (fold (call mf) cs x) \<and> map_of (x_orders (fold (call mf) cs x)) oid = Some ord"
    using _ conjI [OF assms(1,2)]
    by (rule fold_invariant [where P = "\<lambda>y. ids_issued y \<and> map_of (x_orders y) oid = Some ord"])
      (simp add: ids_issued_call settled_order_kept_call assms(3))
  then show ?thesis
    by (simp add: run_calls_def)
qed

text \<open>
  Claim C9. If the order id is unknown, or the order is in any state other than PENDING,
  \<^verbatim>\<open>cancel_order\<close> returns \<^verbatim>\<open>false\<close> and the exchange (orders, account with its cash
  and positions, trade history, clock, counter, matcher) is exactly what it was. After
  \<^verbatim>\<open>cancel_order(id)\<close> has returned \<^verbatim>\<open>true\<close> the order is CANCELLED, so a second
  \<^verbatim>\<open>cancel_order(id)\<close> returns \<^verbatim>\<open>false\<close> and changes nothing: at once, and, on an
  exchange that was built by its constructor, also after any further public calls.
\<close>

theorem cancel_order_idempotent:
  "(map_of (x_orders x) oid = None
      \<or> (\<exists>ord. map_of (x_orders x) oid = Some ord \<and> o_status ord \<noteq> PENDING)
      \<longrightarrow> cancel_order oid now x = (False, x))
   \<and> (cancel_order oid now x = (True, x') \<longrightarrow> cancel_order oid now' x' = (False, x'))
   \<and> (SimulatedExchange_new aid capital seed = Some x0
        \<and> cancel_order oid now (run_calls mf cs x0) = (True, x1)
      \<longrightarrow> cancel_order oid now' (run_calls mf cs' x1) = (False, run_calls mf cs' x1))"
proof (intro conjI impI)
  assume "map_of (x_orders x) oid = None
      \<or> (\<exists>ord. map_of (x_orders x) oid = Some ord \<and> o_status ord \<noteq> PENDING)"
  then show "cancel_order oid now x = (False, x)"
    by (rule cancel_order_refused)
next
  assume "cancel_order oid now x = (True, x')"
  then obtain ord where "map_of (x_orders x') oid = Some ord" and "o_status ord = CANCELLED"
    using cancel_order_accepted by blast
  then show "cancel_order oid now' x' = (False, x')"
    by (intro cancel_order_refused) auto
next
  assume a: "SimulatedExchange_new aid capital seed = Some x0
        \<and> cancel_order oid now (run_calls mf cs x0) = (True, x1)"
  then have "ids_issued (run_calls mf cs x0)"
    using ids_issued_run_calls by blast
  then have "ids_issued (snd (cancel_order oid now (run_calls mf cs x0)))"
    by (rule ids_issued_cancel_order)
  with a have ids: "ids_issued x1"
    by simp
  from a obtain ord where "map_of (x_orders x1) oid = Some ord" and c: "o_status ord = CANCELLED"
    using cancel_order_accepted by blast
  with ids have "map_of (x_orders (run_calls mf cs' x1)) oid = Some ord"
    by (intro settled_order_kept_run) simp_all
  with c show "cancel_order oid now' (run_calls mf cs' x1) = (False, run_calls mf cs' x1)"
    by (intro cancel_order_refused) auto
qed

theorem cancel_order_idempotent_witness:
  "fst (cancel_order ''ORDER_1_000001_1'' 5 exch_buy_100)
   \<and> a_frozen_cash (x_account (snd (cancel_order ''ORDER_1_000001_1'' 5 exch_buy_100))) = 0
   \<and> cancel_order ''ORDER_1_000001_1'' 6 (snd (cancel_order ''ORDER_1_000001_1'' 5 exch_buy_100))
       = (False, snd (cancel_order ''ORDER_1_000001_1'' 5 exch_buy_100))
   \<and> cancel_order ''ORDER_9'' 5 exch_buy_100 = (False, exch_buy_100)
   \<and> cancel_order ''ORDER_1_000001_1'' 8
        (run_calls try_match_order [Submit buy_100 6, OnTick tick_000001]
           (snd (cancel_order ''ORDER_1_000001_1'' 5 exch_buy_100)))
       = (False, run_calls try_match_order [Submit buy_100 6, OnTick tick_000001]
                   (snd (cancel_order ''ORDER_1_000001_1'' 5 exch_buy_100)))"
proof -
  let ?c = "cancel_order ''ORDER_1_000001_1'' 5 exch_buy_100"
  let ?later = "[Submit buy_100 6, OnTick tick_000001]"
  have t: "fst ?c"
    by (simp add: exch_buy_100_eq cancel_order_def input_defs)
  then have eq: "?c = (True, snd ?c)"
    by (cases ?c) simp
  have f: "a_frozen_cash (x_account (snd ?c)) = 0"
    by (simp add: exch_buy_100_eq cancel_order_def input_defs release_order_def
        unfreeze_cash_def freeze_amount_def money_defs)
  have u: "map_of (x_orders exch_buy_100) ''ORDER_9'' = None"
    by (simp add: exch_buy_100_eq)
  have new: "SimulatedExchange_new ''ACC'' 100000 zero_rng = Some (exch_fresh 100000)"
    by (simp add: exch_fresh_new)
  have run: "run_calls try_match_order [Submit buy_100 1] (exch_fresh 100000) = exch_buy_100"
    by (simp add: run_calls_def exch_buy_100_def)
  note idem = cancel_order_idempotent [of exch_buy_100 _ 5 "snd ?c" 6 "''ACC''" 100000 zero_rng
      "exch_fresh 100000" try_match_order "[Submit buy_100 1]" "snd ?c" ?later]
  from idem [of "''ORDER_1_000001_1''"] eq
  have 1: "cancel_order ''ORDER_1_000001_1'' 6 (snd ?c) = (False, snd ?c)"
    by blast
  from idem [of "''ORDER_9''"] u
  have 2: "cancel_order ''ORDER_9'' 5 exch_buy_100 = (False, exch_buy_100)"
    by blast
  from cancel_order_idempotent [of exch_buy_100 "''ORDER_1_000001_1''" 5 "snd ?c" 8 "''ACC''"
      100000 zero_rng "exch_fresh 100000" try_match_order "[Submit buy_100 1]" "snd ?c" ?later]
    new run eq
  have 3: "cancel_order ''ORDER_1_000001_1'' 8 (run_calls try_match_order ?later (snd ?c))
             = (False, run_calls try_match_order ?later (snd ?c))"
    by simp
  from t f 1 2 3 show ?thesis
    by blast
qed

subsection \<open>Cash after a fill\<close>

lemma add_position_cash [simp]:
  "a_available_cash (snd (add_position s v p d a)) = a_available_cash a"
  "a_frozen_cash (snd (add_position s v p d a)) = a_frozen_cash a"
  by (simp_all add: add_position_def Let_def split: option.splits)

lemma freeze_then_unfreeze:
  assumes "freeze_cash amt a = (True, a')" and "0 \<le> a_frozen_cash a"
  shows "a_available_cash (unfreeze_cash amt a') = a_available_cash a"
    and "a_frozen_cash (unfreeze_cash amt a') = a_frozen_cash a"
proof -
  from assms(1) have pos: "0 \<le> amt"
    and a': "a' = a\<lparr>a_available_cash := a_available_cash a - round_to_cent amt,
                    a_frozen_cash := a_frozen_cash a + round_to_cent amt\<rparr>"
    by (auto simp: freeze_cash_def Let_def split: if_splits)
  from assms(2) have "min (round_to_cent amt) (a_frozen_cash a + round_to_cent amt)
                        = round_to_cent amt"
    by simp
  with pos a' show "a_available_cash (unfreeze_cash amt a') = a_available_cash a"
    and "a_frozen_cash (unfreeze_cash amt a') = a_frozen_cash a"
    by (simp_all add: unfreeze_cash_def Let_def)
qed

lemma unfreeze_cash_frozen_nonneg:
  "0 \<le> a_frozen_cash a \<Longrightarrow> 0 \<le> a_frozen_cash (unfreeze_cash amt a)"
  by (simp add: unfreeze_cash_def Let_def)

text \<open>
  The defect behind claim C1, for every BUY fill. When the frozen cash is not negative
  and \<^verbatim>\<open>freeze_cash(actual_cost)\<close> succeeds, \<^verbatim>\<open>process_fill\<close> leaves the available cash
  and the frozen cash at what they were right after the estimate was unfrozen: the cost
  of the purchase is never taken from the account.
\<close>

lemma buy_fill_keeps_cash:
  assumes "o_side ord = BUY" and "0 \<le> a_frozen_cash (x_account x)"
    and "fst (freeze_cash (of_int (m_filled_volume res) * m_filled_price res
                 + calculate_commission BUY (m_filled_price res) (m_filled_volume res))
               (unfreeze_cash (freeze_amount ord) (x_account x)))"
  shows "a_available_cash (x_account (process_fill oid ord res d x))
           = a_available_cash (unfreeze_cash (freeze_amount ord) (x_account x))"
    and "a_frozen_cash (x_account (process_fill oid ord res d x))
           = a_frozen_cash (unfreeze_cash (freeze_amount ord) (x_account x))"
proof -
  let ?cost = "of_int (m_filled_volume res) * m_filled_price res
                 + calculate_commission BUY (m_filled_price res) (m_filled_volume res)"
  let ?a1 = "unfreeze_cash (freeze_amount ord) (x_account x)"
  from assms(3) obtain a2 where f: "freeze_cash ?cost ?a1 = (True, a2)"
    by (cases "freeze_cash ?cost ?a1") simp
  from assms(2) have nonneg: "0 \<le> a_frozen_cash ?a1"
    by (rule unfreeze_cash_frozen_nonneg)
  from assms(1) f have "process_fill oid ord res d x
      = record_fill oid ord res (calculate_commission BUY (m_filled_price res) (m_filled_volume res))
          0 (x\<lparr>x_account :=
                 snd (add_position (o_symbol ord) (m_filled_volume res) (m_filled_price res) d
                        (unfreeze_cash ?cost a2))\<rparr>)"
    by (simp add: process_fill_def Let_def)
  then show "a_available_cash (x_account (process_fill oid ord res d x)) = a_available_cash ?a1"
    and "a_frozen_cash (x_account (process_fill oid ord res d x)) = a_frozen_cash ?a1"
    using freeze_then_unfreeze [OF f nonneg] by simp_all
qed

end
